theory Spec2Isabelle
  imports Complex_Main "HOL-Library.Word" "HOL-Library.Multiset"
begin

section \<open>Common infrastructure\<close>

text \<open>
  Exceptions of the Python program are values.  Every source function that can raise
  returns \<open>error + 'a\<close>, with \<open>Inl\<close> carrying the exception.
\<close>

datatype error =
    LinAlgError
  | ValueError
  | IndexError
  | KeyError
  | UnboundLocalError
  | UnsupportedActivation string

text \<open>
  A numpy array of shape \<open>(N, 3)\<close> is a list of triples; an array of shape
  \<open>(F, N, 3)\<close> is a list of those.  Coordinates that took part in arithmetic are
  modelled as real numbers (rounding, infinities and NaN of float32 are outside the model,
  except in \<open>pre_process\<close>, whose row filter is a NaN test).
\<close>

type_synonym 'a triple = "'a \<times> 'a \<times> 'a"
type_synonym vec3 = "real triple"
type_synonym mat3 = "vec3 triple"
type_synonym markers = "vec3 list"

section \<open>dataset.py\<close>

subsection \<open>extract_columns\<close>

text \<open>
  A pandas DataFrame: the column labels and the rows; a row gives the value under a label.
  \<open>dataset[columns]\<close> raises KeyError when a label is missing.
\<close>

record 'a dataframe =
  df_columns :: "string list"
  df_rows :: "(string \<Rightarrow> 'a) list"

definition select_columns :: "'a dataframe \<Rightarrow> string list \<Rightarrow> error + 'a list list" where
  "select_columns dataset columns =
     (if list_all (\<lambda>c. c \<in> set (df_columns dataset)) columns
      then Inr (map (\<lambda>row. map row columns) (df_rows dataset))
      else Inl KeyError)"

text \<open>\<open>a.reshape(-1, 3)\<close> of a one-dimensional array: ValueError unless the size is a
  multiple of three.\<close>

fun reshape3 :: "'a list \<Rightarrow> error + 'a triple list" where
  "reshape3 [] = Inr []"
| "reshape3 (a # b # c # rest) =
     (case reshape3 rest of Inl e \<Rightarrow> Inl e | Inr r \<Rightarrow> Inr ((a, b, c) # r))"
| "reshape3 _ = Inl ValueError"

fun reshape_rows :: "'a list list \<Rightarrow> error + 'a triple list list" where
  "reshape_rows [] = Inr []"
| "reshape_rows (r # rs) =
     (case reshape3 r of
        Inl e \<Rightarrow> Inl e
      | Inr t \<Rightarrow> (case reshape_rows rs of Inl e \<Rightarrow> Inl e | Inr ts \<Rightarrow> Inr (t # ts)))"

definition column_names :: "string list \<Rightarrow> string \<Rightarrow> string list" where
  "column_names names suffix =
     concat (map (\<lambda>name. [name @ ''.'' @ suffix @ ''.x'',
                           name @ ''.'' @ suffix @ ''.y'',
                           name @ ''.'' @ suffix @ ''.z'']) names)"

text \<open>
  \<open>output.reshape(output.shape[0], -1, 3)\<close>: with no rows numpy cannot infer the
  \<open>-1\<close> dimension and raises ValueError.
\<close>

definition extract_columns ::
  "'a dataframe \<Rightarrow> string list \<Rightarrow> string \<Rightarrow> error + 'a triple list list" where
  "extract_columns dataset names suffix =
     (case select_columns dataset (column_names names suffix) of
        Inl e \<Rightarrow> Inl e
      | Inr output \<Rightarrow> (if output = [] then Inl ValueError else reshape_rows output))"

subsection \<open>pre_process\<close>

text \<open>
  A float32 that may be NaN: \<open>None\<close> is NaN.  \<open>v != v\<close> holds for NaN only, a
  comparison with NaN is false, and arithmetic on NaN gives NaN.
\<close>

type_synonym float = "real option"

definition is_nan :: "float \<Rightarrow> bool" where
  "is_nan v = (case v of None \<Rightarrow> True | Some _ \<Rightarrow> False)"

definition float_gt :: "float \<Rightarrow> real \<Rightarrow> bool" where
  "float_gt v c = (case v of None \<Rightarrow> False | Some r \<Rightarrow> c < r)"

definition float_sub :: "float \<Rightarrow> real \<Rightarrow> float" where
  "float_sub v c = map_option (\<lambda>r. r - c) v"

definition float_div :: "float \<Rightarrow> real \<Rightarrow> float" where
  "float_div v c = map_option (\<lambda>r. r / c) v"

definition triple_list :: "'a triple \<Rightarrow> 'a list" where
  "triple_list t = (case t of (x, y, z) \<Rightarrow> [x, y, z])"

definition map_triple :: "('a \<Rightarrow> 'b) \<Rightarrow> 'a triple \<Rightarrow> 'b triple" where
  "map_triple f t = (case t of (x, y, z) \<Rightarrow> (f x, f y, f z))"

text \<open>\<open>np.sum(positions_mocap != positions_mocap, axis=(1,2)) == 0\<close>, one flag per
  frame.\<close>

definition nan_count :: "float triple list \<Rightarrow> nat" where
  "nan_count frame = length (filter is_nan (concat (map triple_list frame)))"

definition nan_free_rows :: "float triple list list \<Rightarrow> bool list" where
  "nan_free_rows positions_mocap = map (\<lambda>frame. nan_count frame = 0) positions_mocap"

text \<open>Indexing with a boolean mask: IndexError when the mask's length is not the number of
  rows.\<close>

definition mask_rows :: "bool list \<Rightarrow> 'a list \<Rightarrow> error + 'a list" where
  "mask_rows flags xs =
     (if length flags \<noteq> length xs then Inl IndexError
      else Inr (map snd (filter fst (zip flags xs))))"

text \<open>\<open>a[a > 180] = a[a > 180] - 360\<close> on one element, then \<open>a / 180\<close>.\<close>

definition shift_angle :: "float \<Rightarrow> float" where
  "shift_angle v = (if float_gt v 180 then float_sub v 360 else v)"

definition normalize_angle :: "float \<Rightarrow> float" where
  "normalize_angle v = float_div (shift_angle v) 180"

definition pre_process ::
  "float triple list list \<Rightarrow> float triple list list \<Rightarrow> float triple list list \<Rightarrow>
   error + (float triple list list \<times> float triple list list \<times> float triple list list)" where
  "pre_process positions_hand orientations_hand positions_mocap =
     (let indices = nan_free_rows positions_mocap in
      case mask_rows indices positions_hand of
        Inl e \<Rightarrow> Inl e
      | Inr positions_hand' \<Rightarrow>
     (case mask_rows indices orientations_hand of
        Inl e \<Rightarrow> Inl e
      | Inr orientations_hand' \<Rightarrow>
     (case mask_rows indices positions_mocap of
        Inl e \<Rightarrow> Inl e
      | Inr positions_mocap' \<Rightarrow>
          Inr (positions_hand',
               map (map (map_triple normalize_angle)) orientations_hand',
               positions_mocap'))))"

subsection \<open>Arithmetic on arrays of shape (3,) and (3, 3)\<close>

fun vec_add :: "vec3 \<Rightarrow> vec3 \<Rightarrow> vec3" where
  "vec_add (a, b, c) (d, e, f) = (a + d, b + e, c + f)"

fun vec_sub :: "vec3 \<Rightarrow> vec3 \<Rightarrow> vec3" where
  "vec_sub (a, b, c) (d, e, f) = (a - d, b - e, c - f)"

fun vec_neg :: "vec3 \<Rightarrow> vec3" where
  "vec_neg (a, b, c) = (- a, - b, - c)"

fun vec_div :: "vec3 \<Rightarrow> real \<Rightarrow> vec3" where
  "vec_div (a, b, c) n = (a / n, b / n, c / n)"

fun transpose3 :: "mat3 \<Rightarrow> mat3" where
  "transpose3 ((a, b, c), (d, e, f), (g, h, i)) = ((a, d, g), (b, e, h), (c, f, i))"

text \<open>\<open>v.dot(M)\<close>: a row vector times a matrix.\<close>

fun vec_mat :: "vec3 \<Rightarrow> mat3 \<Rightarrow> vec3" where
  "vec_mat (x, y, z) ((a, b, c), (d, e, f), (g, h, i)) =
     (x * a + y * d + z * g, x * b + y * e + z * h, x * c + y * f + z * i)"

text \<open>\<open>A.dot(B)\<close> for two 3 by 3 matrices: each row of \<open>A\<close> times \<open>B\<close>.\<close>

fun mat_mul :: "mat3 \<Rightarrow> mat3 \<Rightarrow> mat3" where
  "mat_mul (r1, r2, r3) B = (vec_mat r1 B, vec_mat r2 B, vec_mat r3 B)"

fun mat_add :: "mat3 \<Rightarrow> mat3 \<Rightarrow> mat3" where
  "mat_add (r1, r2, r3) (s1, s2, s3) = (vec_add r1 s1, vec_add r2 s2, vec_add r3 s3)"

definition zero3 :: "vec3" where
  "zero3 = (0, 0, 0)"

definition zero_mat :: "mat3" where
  "zero_mat = (zero3, zero3, zero3)"

definition identity3 :: "mat3" where
  "identity3 = ((1, 0, 0), (0, 1, 0), (0, 0, 1))"

text \<open>\<open>np.linalg.det\<close> of a 3 by 3 matrix.\<close>

fun det3 :: "mat3 \<Rightarrow> real" where
  "det3 ((a, b, c), (d, e, f), (g, h, i)) =
     a * (e * i - f * h) - b * (d * i - f * g) + c * (d * h - e * g)"

text \<open>\<open>np.mean(X, axis=0)\<close>, for an array with at least one row.  For an empty array
  numpy gives NaN (with a warning), which the real-valued model does not have; the
  value of \<open>mean_rows []\<close> stands for nothing in the program.  Every statement below
  about a translation is about a point set that is not empty: three alignment markers,
  or a visible subset that a hypothesis keeps non-empty.\<close>

definition sum_rows :: "vec3 list \<Rightarrow> vec3" where
  "sum_rows X = foldr vec_add X zero3"

definition mean_rows :: "vec3 list \<Rightarrow> vec3" where
  "mean_rows X = vec_div (sum_rows X) (real (length X))"

definition centered :: "vec3 list \<Rightarrow> vec3 list" where
  "centered X = map (\<lambda>p. vec_sub p (mean_rows X)) X"

text \<open>\<open>A.T.dot(B)\<close> for \<open>A\<close>, \<open>B\<close> of shapes \<open>(M, 3)\<close> and \<open>(N, 3)\<close>: the sum over
  the rows of the outer products; ValueError (shapes not aligned) unless \<open>M = N\<close>.\<close>

fun outer :: "vec3 \<Rightarrow> vec3 \<Rightarrow> mat3" where
  "outer (a, b, c) (x, y, z) =
     ((a * x, a * y, a * z), (b * x, b * y, b * z), (c * x, c * y, c * z))"

definition transpose_dot :: "vec3 list \<Rightarrow> vec3 list \<Rightarrow> error + mat3" where
  "transpose_dot A B =
     (if length A \<noteq> length B then Inl ValueError
      else Inr (foldr mat_add (map (\<lambda>(p, q). outer p q) (zip A B)) zero_mat))"

subsection \<open>rigid_motion\<close>

text \<open>
  \<open>np.linalg.svd\<close> is a routine of the numerical library, not of this repository: it is a
  parameter of the model.  It returns \<open>U, S, V\<close> (the third is what numpy calls \<open>Vh\<close>)
  or raises LinAlgError when the iteration does not converge.
\<close>

type_synonym svd_routine = "mat3 \<Rightarrow> error + (mat3 \<times> vec3 \<times> mat3)"

text \<open>\<open>V[2] = -V[2]\<close>\<close>

fun negate_last_row :: "mat3 \<Rightarrow> mat3" where
  "negate_last_row (r1, r2, r3) = (r1, r2, vec_neg r3)"

definition cross_covariance :: "vec3 list \<Rightarrow> vec3 list \<Rightarrow> error + mat3" where
  "cross_covariance X Y = transpose_dot (centered Y) (centered X)"

definition rigid_motion :: "svd_routine \<Rightarrow> vec3 list \<Rightarrow> vec3 list \<Rightarrow> error + (mat3 \<times> vec3)" where
  "rigid_motion svd X Y =
     (let X_mean = mean_rows X;
          Y_mean = mean_rows Y
      in case cross_covariance X Y of
           Inl e \<Rightarrow> Inl e
         | Inr H \<Rightarrow>
        (case svd H of
           Inl e \<Rightarrow> Inl e
         | Inr (U, S, V) \<Rightarrow>
             (let R = mat_mul (transpose3 V) (transpose3 U);
                  R' = (if det3 R < 0
                        then mat_mul (transpose3 (negate_last_row V)) (transpose3 U)
                        else R);
                  offset = vec_add (vec_mat (vec_neg X_mean) R') Y_mean
              in Inr (R', offset))))"


text \<open>\<open>sample.dot(R) + offset\<close> for a sample of shape \<open>(N, 3)\<close>.\<close>

definition transform :: "vec3 list \<Rightarrow> mat3 \<Rightarrow> vec3 \<Rightarrow> vec3 list" where
  "transform sample R offset = map (\<lambda>p. vec_add (vec_mat p R) offset) sample"

text \<open>Indexing the rows of an array with a list of indices: IndexError out of bounds.\<close>

fun take_rows :: "'a list \<Rightarrow> nat list \<Rightarrow> error + 'a list" where
  "take_rows xs [] = Inr []"
| "take_rows xs (i # js) =
     (if i < length xs
      then (case take_rows xs js of Inl e \<Rightarrow> Inl e | Inr r \<Rightarrow> Inr (xs ! i # r))
      else Inl IndexError)"

text \<open>Ranges of angle arrays, for stating what \<open>pre_process\<close> does to them: a value is
  a number in \<open>[lo, hi)\<close>, or in \<open>[lo, hi]\<close>; NaN is in neither.\<close>

definition float_in :: "real \<Rightarrow> real \<Rightarrow> float \<Rightarrow> bool" where
  "float_in lo hi v = (case v of None \<Rightarrow> False | Some r \<Rightarrow> lo \<le> r \<and> r < hi)"

definition float_within :: "real \<Rightarrow> real \<Rightarrow> float \<Rightarrow> bool" where
  "float_within lo hi v = (case v of None \<Rightarrow> False | Some r \<Rightarrow> lo \<le> r \<and> r \<le> hi)"

definition all_angles :: "(float \<Rightarrow> bool) \<Rightarrow> float triple list list \<Rightarrow> bool" where
  "all_angles P a = list_all (list_all (\<lambda>joint. list_all P (triple_list joint))) a"

section \<open>config.py\<close>

definition all_markers :: "string list" where
  "all_markers = [''LEHAR'', ''LEHAL'', ''WHARHAR'', ''LRIF'', ''LBAF'', ''LMIF'', ''LINF'',
                  ''LPAL'', ''LTHF'']"

definition alignment_marker_names :: "string list" where
  "alignment_marker_names = [''LEHAR'', ''LEHAL'', ''WHARHAR'']"

text \<open>\<open>list.index\<close>: the first position of a value, ValueError when it is absent.\<close>

fun list_index :: "'a list \<Rightarrow> 'a \<Rightarrow> error + nat" where
  "list_index [] v = Inl ValueError"
| "list_index (x # xs) v =
     (if x = v then Inr 0
      else (case list_index xs v of Inl e \<Rightarrow> Inl e | Inr i \<Rightarrow> Inr (Suc i)))"

fun convert_to_index :: "string list \<Rightarrow> string list \<Rightarrow> error + nat list" where
  "convert_to_index markers [] = Inr []"
| "convert_to_index markers (n # ns) =
     (case list_index markers n of
        Inl e \<Rightarrow> Inl e
      | Inr i \<Rightarrow> (case convert_to_index markers ns of Inl e \<Rightarrow> Inl e | Inr r \<Rightarrow> Inr (i # r)))"

text \<open>The value of \<open>alignment_points_markers\<close> after the conversion loop at the end of
  \<open>config.py\<close> (lemma \<open>alignment_points_markers_config\<close>).\<close>

definition alignment_points_markers :: "nat list" where
  "alignment_points_markers = [0, 1, 2]"

section \<open>train_joint_model.py\<close>

text \<open>
  \<open>normalize_positions\<close> assigns into the array it is given, so arrays live in a store:
  an address names an array object of shape \<open>(F, N, 3)\<close>, and the function takes and
  returns addresses.  The loop state holds the locals \<open>error_count\<close>, \<open>R\<close> and
  \<open>offset\<close> (the last two unbound until the first successful alignment) and the store.
\<close>

type_synonym addr = nat
type_synonym store = "addr \<Rightarrow> markers list"

record norm_state =
  error_count :: nat
  binding :: "(mat3 \<times> vec3) option"
  heap :: store

text \<open>
  One iteration per index.  The bare \<open>except:\<close> catches whatever \<open>rigid_motion\<close>
  raises and only counts; the assignment to \<open>positions_mocap[i]\<close> follows the
  \<open>try\<close> statement and runs in both cases, reading \<open>R\<close> and \<open>offset\<close> as they
  are bound then (UnboundLocalError when they never were).  The indexing of the frame
  is outside the \<open>try\<close>.
\<close>

fun normalize_loop ::
  "svd_routine \<Rightarrow> markers \<Rightarrow> addr \<Rightarrow> nat list \<Rightarrow> norm_state \<Rightarrow> norm_state \<times> error option" where
  "normalize_loop svd Y a [] st = (st, None)"
| "normalize_loop svd Y a (i # js) st =
     (case take_rows (heap st a ! i) alignment_points_markers of
        Inl e \<Rightarrow> (st, Some e)
      | Inr X \<Rightarrow>
          (let st1 = (case rigid_motion svd X Y of
                        Inl e \<Rightarrow> st\<lparr>error_count := error_count st + 1\<rparr>
                      | Inr b \<Rightarrow> st\<lparr>binding := Some b\<rparr>)
           in case binding st1 of
                None \<Rightarrow> (st1, Some UnboundLocalError)
              | Some (R, offset) \<Rightarrow>
                  normalize_loop svd Y a js
                    (st1\<lparr>heap := (heap st1)
                       (a := (heap st1 a)[i := transform (heap st1 a ! i) R offset])\<rparr>)))"

text \<open>The result: the store after the call, and either the exception that ended the call
  or the returned reference with the error count that was printed.\<close>

definition normalize_positions ::
  "svd_routine \<Rightarrow> markers \<Rightarrow> addr \<Rightarrow> store \<Rightarrow> store \<times> (error + addr \<times> nat)" where
  "normalize_positions svd hand positions_mocap s =
     (case take_rows hand alignment_points_markers of
        Inl e \<Rightarrow> (s, Inl e)
      | Inr Y \<Rightarrow>
          (case normalize_loop svd Y positions_mocap [0..<length (s positions_mocap)]
                  \<lparr>error_count = 0, binding = None, heap = s\<rparr> of
             (st, Some e) \<Rightarrow> (heap st, Inl e)
           | (st, None) \<Rightarrow> (heap st, Inr (positions_mocap, error_count st))))"

text \<open>\<open>mocap_sample.flatten()\<close>: row-major, marker by marker, then x, y, z.\<close>

definition extract_input_features :: "'a triple list \<Rightarrow> 'a list" where
  "extract_input_features mocap_sample = concat (map triple_list mocap_sample)"

section \<open>train_marker_model.py\<close>

definition batch_size :: nat where
  "batch_size = 32"

text \<open>\<open>x[occluded] = 0\<close>: IndexError when an index is out of bounds.\<close>

definition zero_rows :: "nat list \<Rightarrow> markers \<Rightarrow> error + markers" where
  "zero_rows occluded x =
     (if list_all (\<lambda>i. i < length x) occluded
      then Inr (fold (\<lambda>i acc. acc[i := zero3]) occluded x)
      else Inl IndexError)"

definition available_markers :: "nat \<Rightarrow> nat list \<Rightarrow> nat list" where
  "available_markers n occlusions = filter (\<lambda>i. i \<notin> set occlusions) [0..<n]"

definition extract_features ::
  "svd_routine \<Rightarrow> markers \<Rightarrow> markers \<Rightarrow> nat list \<Rightarrow> error + (real list \<times> real list)" where
  "extract_features svd hand mocap_sample occlusions =
     (let occluded = sort (remdups occlusions);
          available = available_markers (length mocap_sample) occlusions
      in case take_rows mocap_sample available of
           Inl e \<Rightarrow> Inl e
         | Inr Xa \<Rightarrow>
        (case take_rows hand available of
           Inl e \<Rightarrow> Inl e
         | Inr Ya \<Rightarrow>
        (case rigid_motion svd Xa Ya of
           Inl e \<Rightarrow> Inl e
         | Inr (R, offset) \<Rightarrow>
             (let y = transform mocap_sample R offset
              in case zero_rows occluded y of
                   Inl e \<Rightarrow> Inl e
                 | Inr x \<Rightarrow> Inr (extract_input_features x, extract_input_features y)))))"

text \<open>
  The global generator \<open>np.random\<close>: its state is of an abstract type \<open>'g\<close>, and the four
  draws the program makes are parameters.  Each returns the drawn value and the next
  state.  The argument checks of numpy are in the model (\<open>draw_randint\<close>,
  \<open>draw_choice\<close>); what the draws promise is \<open>rng_ok\<close>.
\<close>

record 'g np_random =
  rnd_permutation :: "nat \<Rightarrow> 'g \<Rightarrow> nat list \<times> 'g"
  rnd_randint :: "int \<Rightarrow> int \<Rightarrow> 'g \<Rightarrow> int \<times> 'g"
  rnd_categorical :: "'g \<Rightarrow> nat \<times> 'g"
  rnd_choice :: "nat \<Rightarrow> nat \<Rightarrow> 'g \<Rightarrow> nat list \<times> 'g"

text \<open>\<open>np.random.randint(low, high)\<close>: ValueError unless \<open>low < high\<close>.\<close>

definition draw_randint :: "'g np_random \<Rightarrow> int \<Rightarrow> int \<Rightarrow> 'g \<Rightarrow> error + (int \<times> 'g)" where
  "draw_randint rnd low high g =
     (if low < high then Inr (rnd_randint rnd low high g) else Inl ValueError)"

text \<open>\<open>np.random.choice(n, k, replace=False)\<close>: ValueError when \<open>k\<close> is negative or
  larger than the population.\<close>

definition draw_choice :: "'g np_random \<Rightarrow> nat \<Rightarrow> int \<Rightarrow> 'g \<Rightarrow> error + (nat list \<times> 'g)" where
  "draw_choice rnd n k g =
     (if k < 0 \<or> int n < k then Inl ValueError else Inr (rnd_choice rnd n (nat k) g))"

record 'g gen_state =
  counter :: nat
  indices :: "nat list option"
  rng :: 'g

text \<open>The state before the first \<open>next()\<close>: \<open>counter = X.shape[0]\<close>, \<open>indices\<close> not yet
  bound.\<close>

definition gen_init :: "markers list \<Rightarrow> 'g \<Rightarrow> 'g gen_state" where
  "gen_init X g = \<lparr>counter = length X, indices = None, rng = g\<rparr>"

text \<open>Lines 106 to 111: the cursor.  Returns the selected index.\<close>

definition select_sample :: "'g np_random \<Rightarrow> nat \<Rightarrow> 'g gen_state \<Rightarrow> error + (nat \<times> 'g gen_state)" where
  "select_sample rnd n st =
     (let st1 = (if counter st = n
                 then (case rnd_permutation rnd n (rng st) of
                         (p, g) \<Rightarrow> st\<lparr>counter := 0, indices := Some p, rng := g\<rparr>)
                 else st)
      in case indices st1 of
           None \<Rightarrow> Inl UnboundLocalError
         | Some p \<Rightarrow>
             (if counter st1 < length p
              then Inr (p ! counter st1, st1\<lparr>counter := counter st1 + 1\<rparr>)
              else Inl IndexError))"

text \<open>Lines 113 to 117: the occlusion mask.\<close>

definition draw_occlusions ::
  "'g np_random \<Rightarrow> int \<Rightarrow> int \<Rightarrow> 'g \<Rightarrow> error + (nat list \<times> 'g)" where
  "draw_occlusions rnd min_occlusions max_occlusions g =
     (case (if min_occlusions \<noteq> - 1
            then draw_randint rnd min_occlusions (max_occlusions + 1) g
            else (case rnd_categorical rnd g of (c, g') \<Rightarrow> Inr (int c + 1, g'))) of
        Inl e \<Rightarrow> Inl e
      | Inr (num_occlusions, g1) \<Rightarrow> draw_choice rnd (length all_markers) num_occlusions g1)"

text \<open>
  The body of the \<open>for i in range(batch_size)\<close> loop.  It returns the selected index
  with the two rows: the index is not stored by the program, it is kept here so that
  the order of selection can be stated.  \<open>X_batch[i] = x\<close> raises ValueError unless the
  row has \<open>len(all_markers) * 3\<close> entries.
\<close>

definition sample_step ::
  "'g np_random \<Rightarrow> svd_routine \<Rightarrow> markers \<Rightarrow> markers list \<Rightarrow> int \<Rightarrow> int \<Rightarrow> 'g gen_state \<Rightarrow>
   error + ((nat \<times> real list \<times> real list) \<times> 'g gen_state)" where
  "sample_step rnd svd hand X min_occlusions max_occlusions st =
     (case select_sample rnd (length X) st of
        Inl e \<Rightarrow> Inl e
      | Inr (idx, st1) \<Rightarrow>
     (case draw_occlusions rnd min_occlusions max_occlusions (rng st1) of
        Inl e \<Rightarrow> Inl e
      | Inr (occluded_idxs, g) \<Rightarrow>
     (if length X \<le> idx then Inl IndexError
      else (case extract_features svd hand (X ! idx) occluded_idxs of
        Inl e \<Rightarrow> Inl e
      | Inr (x, y) \<Rightarrow>
          (if length x \<noteq> length all_markers * 3 \<or> length y \<noteq> length all_markers * 3
           then Inl ValueError
           else Inr ((idx, x, y), st1\<lparr>rng := g\<rparr>))))))"

fun fill_batch ::
  "'g np_random \<Rightarrow> svd_routine \<Rightarrow> markers \<Rightarrow> markers list \<Rightarrow> int \<Rightarrow> int \<Rightarrow> nat \<Rightarrow> 'g gen_state \<Rightarrow>
   error + ((nat \<times> real list \<times> real list) list \<times> 'g gen_state)" where
  "fill_batch rnd svd hand X mn mx 0 st = Inr ([], st)"
| "fill_batch rnd svd hand X mn mx (Suc k) st =
     (case sample_step rnd svd hand X mn mx st of
        Inl e \<Rightarrow> Inl e
      | Inr (row, st1) \<Rightarrow>
          (case fill_batch rnd svd hand X mn mx k st1 of
             Inl e \<Rightarrow> Inl e
           | Inr (rows, st2) \<Rightarrow> Inr (row # rows, st2)))"

text \<open>
  One round of the \<open>while True\<close> loop, from one \<open>yield\<close> to the next: what a call of
  \<open>next()\<close> on the generator returns, with the generator's state afterwards.  The loop
  itself never ends; the consumer decides how many batches it asks for.
\<close>

definition generate_minibatch ::
  "'g np_random \<Rightarrow> svd_routine \<Rightarrow> markers \<Rightarrow> markers list \<Rightarrow> int \<Rightarrow> int \<Rightarrow> 'g gen_state \<Rightarrow>
   error + ((real list list \<times> real list list) \<times> 'g gen_state)" where
  "generate_minibatch rnd svd hand X min_occlusions max_occlusions st =
     (case fill_batch rnd svd hand X min_occlusions max_occlusions batch_size st of
        Inl e \<Rightarrow> Inl e
      | Inr (rows, st1) \<Rightarrow>
          Inr ((map (\<lambda>r. fst (snd r)) rows, map (\<lambda>r. snd (snd r)) rows), st1))"

text \<open>
  The \<open>while True\<close> loop as its consumer sees it: \<open>b\<close> calls of \<open>next()\<close> on the
  generator, one after the other, each running the loop from one \<open>yield\<close> to the next.
  The result is the batches yielded, in order, and the generator's state after the last.
\<close>

fun generate_batches ::
  "'g np_random \<Rightarrow> svd_routine \<Rightarrow> markers \<Rightarrow> markers list \<Rightarrow> int \<Rightarrow> int \<Rightarrow> nat \<Rightarrow> 'g gen_state \<Rightarrow>
   error + ((real list list \<times> real list list) list \<times> 'g gen_state)" where
  "generate_batches rnd svd hand X min_occlusions max_occlusions 0 st = Inr ([], st)"
| "generate_batches rnd svd hand X min_occlusions max_occlusions (Suc b) st =
     (case generate_minibatch rnd svd hand X min_occlusions max_occlusions st of
        Inl e \<Rightarrow> Inl e
      | Inr (batch, st1) \<Rightarrow>
          (case generate_batches rnd svd hand X min_occlusions max_occlusions b st1 of
             Inl e \<Rightarrow> Inl e
           | Inr (batches, st2) \<Rightarrow> Inr (batch # batches, st2)))"

text \<open>What numpy promises of the draws: a permutation of \<open>0, \<dots>, n - 1\<close>; an integer in
  \<open>[low, high)\<close>; \<open>k\<close> distinct values below \<open>n\<close>.\<close>

definition permutation_ok :: "'g np_random \<Rightarrow> bool" where
  "permutation_ok rnd = (\<forall>n g. mset (fst (rnd_permutation rnd n g)) = mset [0..<n])"

definition randint_ok :: "'g np_random \<Rightarrow> bool" where
  "randint_ok rnd =
     (\<forall>low high g. low < high \<longrightarrow>
        low \<le> fst (rnd_randint rnd low high g) \<and> fst (rnd_randint rnd low high g) < high)"

definition choice_ok :: "'g np_random \<Rightarrow> bool" where
  "choice_ok rnd =
     (\<forall>n k g. k \<le> n \<longrightarrow>
        distinct (fst (rnd_choice rnd n k g)) \<and> length (fst (rnd_choice rnd n k g)) = k \<and>
        list_all (\<lambda>i. i < n) (fst (rnd_choice rnd n k g)))"

definition categorical_ok :: "'g np_random \<Rightarrow> bool" where
  "categorical_ok rnd = (\<forall>g. fst (rnd_categorical rnd g) < 4)"

text \<open>A generator for concrete runs: its state counts the permutations drawn, the
  permutation is ascending or descending in turn, and the other draws take the least
  values.\<close>

definition flipping_rng :: "nat np_random" where
  "flipping_rng =
     \<lparr>rnd_permutation = (\<lambda>n g. (if even g then [0..<n] else rev [0..<n], Suc g)),
      rnd_randint = (\<lambda>low high g. (low, g)),
      rnd_categorical = (\<lambda>g. (0, g)),
      rnd_choice = (\<lambda>n k g. ([0..<k], g))\<rparr>"

text \<open>Data for concrete runs: a template of nine markers, of which the last seven have
  their centroid at the origin and the cross-covariance \<open>diag(2, 2, 2)\<close> with themselves;
  a sample that is the template moved by \<open>(1, 1, 1)\<close>; and a decomposition routine that
  returns \<open>I diag(2, 2, 2) I\<close>.\<close>

definition example_template :: markers where
  "example_template =
     [(3, 0, 0), (0, 3, 0), (1, 0, 0), (- 1, 0, 0), (0, 1, 0), (0, - 1, 0), (0, 0, 1),
      (0, 0, - 1), (0, 0, 0)]"

definition example_sample :: markers where
  "example_sample =
     [(4, 1, 1), (1, 4, 1), (2, 1, 1), (0, 1, 1), (1, 2, 1), (1, 0, 1), (1, 1, 2),
      (1, 1, 0), (1, 1, 1)]"

definition example_svd :: svd_routine where
  "example_svd H = Inr (identity3, (2, 2, 2), identity3)"

text \<open>The rows of a minibatch for that sample with the markers 0 and 1 occluded.\<close>

definition example_input :: "real list" where
  "example_input =
     [0, 0, 0, 0, 0, 0, 1, 0, 0, - 1, 0, 0, 0, 1, 0, 0, - 1, 0, 0, 0, 1, 0, 0, - 1, 0, 0, 0]"

definition example_target :: "real list" where
  "example_target =
     [3, 0, 0, 0, 3, 0, 1, 0, 0, - 1, 0, 0, 0, 1, 0, 0, - 1, 0, 0, 0, 1, 0, 0, - 1, 0, 0, 0]"

section \<open>exporter.py\<close>

text \<open>
  A weight array as \<open>get_weights()\<close> returns it: its shape, and its float32 elements in
  row-major order, each as its 32-bit pattern (\<open>tofile\<close> writes the elements in C order
  whatever the memory layout).  A Keras layer is a concrete layer, with the name of its
  class (a class other than the two wrappers), the name of its activation function and
  its weights, or one of the two wrappers around a layer.
\<close>

datatype tensor = Tensor (shape: "nat list") (data: "32 word list")

datatype layer =
    Layer string string "tensor list"
  | TimeDistributed layer
  | Bidirectional layer

definition LAYER_TYPES :: "string \<Rightarrow> nat option" where
  "LAYER_TYPES = map_of [(''Dense'', 0), (''SimpleRNN'', 1), (''LSTM'', 2)]"

definition ACTIVATION_TYPES :: "string \<Rightarrow> nat option" where
  "ACTIVATION_TYPES =
     map_of [(''relu'', 0), (''linear'', 1), (''sigmoid'', 2), (''tanh'', 3),
             (''hard_sigmoid'', 4)]"

text \<open>\<open>type(layer).__name__\<close>\<close>

fun type_name :: "layer \<Rightarrow> string" where
  "type_name (Layer name activation weights) = name"
| "type_name (TimeDistributed inner) = ''TimeDistributed''"
| "type_name (Bidirectional inner) = ''Bidirectional''"

text \<open>The first two lines of both loops: one level of wrapping is removed.\<close>

fun unwrap :: "layer \<Rightarrow> layer" where
  "unwrap (TimeDistributed inner) = inner"
| "unwrap (Bidirectional inner) = inner"
| "unwrap l = l"

text \<open>
  The file is a sequence of bytes.  \<open>tofile\<close> writes an array's elements in the machine's
  byte order, which is a parameter.  A Python integer becomes an int32 array element;
  counts and dimensions are taken modulo \<open>2 ^ 32\<close> (numpy versions differ on larger
  values: some wrap, some raise).
\<close>

type_synonym byte = "8 word"

datatype byteorder = LittleEndian | BigEndian

definition le_bytes :: "32 word \<Rightarrow> byte list" where
  "le_bytes w = [ucast w, ucast (drop_bit 8 w), ucast (drop_bit 16 w), ucast (drop_bit 24 w)]"

definition word_bytes :: "byteorder \<Rightarrow> 32 word \<Rightarrow> byte list" where
  "word_bytes bo w = (case bo of LittleEndian \<Rightarrow> le_bytes w | BigEndian \<Rightarrow> rev (le_bytes w))"

definition write_integer :: "byteorder \<Rightarrow> byte list \<Rightarrow> nat \<Rightarrow> byte list" where
  "write_integer bo file v = file @ word_bytes bo (of_nat v)"

definition write_tensor :: "byteorder \<Rightarrow> byte list \<Rightarrow> tensor \<Rightarrow> byte list" where
  "write_tensor bo file t =
     (file @ concat (map (\<lambda>d. word_bytes bo (of_nat d)) (shape t)))
       @ concat (map (word_bytes bo) (data t))"

text \<open>The first loop of \<open>save_model\<close>: it counts the layers whose class is in
  \<open>LAYER_TYPES\<close> and raises at the first of them whose activation is not in
  \<open>ACTIVATION_TYPES\<close>.  A layer of another class is passed over.\<close>

fun count_layers :: "layer list \<Rightarrow> nat \<Rightarrow> error + nat" where
  "count_layers [] num_layers = Inr num_layers"
| "count_layers (l # ls) num_layers =
     (case unwrap l of
        Layer name activation weights \<Rightarrow>
          (if LAYER_TYPES name \<noteq> None
           then (if ACTIVATION_TYPES activation = None
                 then Inl (UnsupportedActivation activation)
                 else count_layers ls (num_layers + 1))
           else count_layers ls num_layers)
      | _ \<Rightarrow> count_layers ls num_layers)"

text \<open>The second loop: the bytes appended for each layer whose class is in
  \<open>LAYER_TYPES\<close>.  A missing activation code would be a KeyError.\<close>

fun write_layers :: "byteorder \<Rightarrow> layer list \<Rightarrow> byte list \<Rightarrow> error + byte list" where
  "write_layers bo [] file = Inr file"
| "write_layers bo (l # ls) file =
     (case unwrap l of
        Layer layer_name activation weights \<Rightarrow>
          (case LAYER_TYPES layer_name of
             None \<Rightarrow> write_layers bo ls file
           | Some kind \<Rightarrow>
               (case ACTIVATION_TYPES activation of
                  None \<Rightarrow> Inl KeyError
                | Some act \<Rightarrow>
                    write_layers bo ls
                      (fold (\<lambda>t f. write_tensor bo f t) weights
                         (write_integer bo (write_integer bo file kind) act))))
      | _ \<Rightarrow> write_layers bo ls file)"

text \<open>
  The file system maps a file name to the file's bytes.  \<open>open(filename, 'wb')\<close> creates
  the file or empties it; the bytes written are in the file when it is closed.  An
  exception after the \<open>open\<close> would leave the bytes written so far.  The result is the
  file system after the call and the exception, if one ended the call.
\<close>

type_synonym filesystem = "string \<Rightarrow> byte list option"

definition save_model ::
  "byteorder \<Rightarrow> layer list \<Rightarrow> string \<Rightarrow> filesystem \<Rightarrow> filesystem \<times> error option" where
  "save_model bo model filename fs =
     (case count_layers model 0 of
        Inl e \<Rightarrow> (fs, Some e)
      | Inr num_layers \<Rightarrow>
          (case write_layers bo model (write_integer bo [] num_layers) of
             Inl e \<Rightarrow> (fs(filename \<mapsto> write_integer bo [] num_layers), Some e)
           | Inr file \<Rightarrow> (fs(filename \<mapsto> file), None)))"

text \<open>
  The layout as the specification words it, for a list of layer records (kind code,
  activation code, tensors): every tensor starts with its number of dimensions.
\<close>

definition spec_tensor_bytes :: "byteorder \<Rightarrow> tensor \<Rightarrow> byte list" where
  "spec_tensor_bytes bo t =
     word_bytes bo (of_nat (length (shape t)))
       @ concat (map (\<lambda>d. word_bytes bo (of_nat d)) (shape t))
       @ concat (map (word_bytes bo) (data t))"

definition spec_record_bytes :: "byteorder \<Rightarrow> nat \<times> nat \<times> tensor list \<Rightarrow> byte list" where
  "spec_record_bytes bo r =
     (case r of (kind, act, tensors) \<Rightarrow>
        word_bytes bo (of_nat kind) @ word_bytes bo (of_nat act)
          @ concat (map (spec_tensor_bytes bo) tensors))"

definition spec_layout :: "byteorder \<Rightarrow> (nat \<times> nat \<times> tensor list) list \<Rightarrow> byte list" where
  "spec_layout bo records =
     word_bytes bo (of_nat (length records)) @ concat (map (spec_record_bytes bo) records)"

text \<open>The layout the code writes: the same without the number of dimensions.\<close>

definition tensor_bytes :: "byteorder \<Rightarrow> tensor \<Rightarrow> byte list" where
  "tensor_bytes bo t =
     concat (map (\<lambda>d. word_bytes bo (of_nat d)) (shape t))
       @ concat (map (word_bytes bo) (data t))"

definition record_bytes :: "byteorder \<Rightarrow> nat \<times> nat \<times> tensor list \<Rightarrow> byte list" where
  "record_bytes bo r =
     (case r of (kind, act, tensors) \<Rightarrow>
        word_bytes bo (of_nat kind) @ word_bytes bo (of_nat act)
          @ concat (map (tensor_bytes bo) tensors))"

definition written_layout :: "byteorder \<Rightarrow> (nat \<times> nat \<times> tensor list) list \<Rightarrow> byte list" where
  "written_layout bo records =
     word_bytes bo (of_nat (length records)) @ concat (map (record_bytes bo) records)"

text \<open>The number of 4-byte fields of that layout.\<close>

definition tensor_fields :: "tensor \<Rightarrow> nat" where
  "tensor_fields t = length (shape t) + length (data t)"

definition record_fields :: "nat \<times> nat \<times> tensor list \<Rightarrow> nat" where
  "record_fields r = (case r of (kind, act, tensors) \<Rightarrow> 2 + sum_list (map tensor_fields tensors))"

definition layout_fields :: "(nat \<times> nat \<times> tensor list) list \<Rightarrow> nat" where
  "layout_fields records = 1 + sum_list (map record_fields records)"

text \<open>The layer records of a model: its layers, unwrapped, whose class and activation are
  in the two tables, in order.\<close>

fun layer_records :: "layer list \<Rightarrow> (nat \<times> nat \<times> tensor list) list" where
  "layer_records [] = []"
| "layer_records (l # ls) =
     (case unwrap l of
        Layer name activation weights \<Rightarrow>
          (case (LAYER_TYPES name, ACTIVATION_TYPES activation) of
             (Some kind, Some act) \<Rightarrow> (kind, act, weights) # layer_records ls
           | _ \<Rightarrow> layer_records ls)
      | _ \<Rightarrow> layer_records ls)"

text \<open>A layer that is exported: its class, after unwrapping, is in \<open>LAYER_TYPES\<close>.  A
  layer that makes the export fail: it is exported and its activation is not in
  \<open>ACTIVATION_TYPES\<close>.\<close>

definition exported :: "layer \<Rightarrow> bool" where
  "exported l = (LAYER_TYPES (type_name (unwrap l)) \<noteq> None)"

definition bad_activation :: "layer \<Rightarrow> bool" where
  "bad_activation l =
     (case unwrap l of
        Layer name activation weights \<Rightarrow>
          LAYER_TYPES name \<noteq> None \<and> ACTIVATION_TYPES activation = None
      | _ \<Rightarrow> False)"

section \<open>Properties\<close>

subsection \<open>Flattening and reshaping\<close>

lemma reshape3_flatten: "reshape3 (extract_input_features m) = Inr m"
  by (induction m) (auto simp: extract_input_features_def triple_list_def)

lemma reshape_rows_flatten: "reshape_rows (map extract_input_features ms) = Inr ms"
  by (induction ms) (simp_all add: reshape3_flatten)

lemma length_flatten: "length (extract_input_features m) = 3 * length m"
  by (induction m) (auto simp: extract_input_features_def triple_list_def)

lemma flatten_slice:
  "i < length m \<Longrightarrow>
   take 3 (drop (3 * i) (extract_input_features m)) = triple_list (m ! i)"
proof (induction m arbitrary: i)
  case Nil
  then show ?case by simp
next
  case (Cons p m)
  obtain x y z where p: "p = (x, y, z)" by (cases p) auto
  have unf: "extract_input_features (p # m) = x # y # z # extract_input_features m"
    unfolding p by (simp add: extract_input_features_def triple_list_def)
  show ?case
  proof (cases i)
    case 0
    then show ?thesis unfolding unf by (simp add: p triple_list_def)
  next
    case (Suc j)
    then have j: "j < length m" using Cons.prems by simp
    have e: "3 * i = Suc (Suc (Suc (3 * j)))" using Suc by simp
    show ?thesis unfolding unf e using Cons.IH [OF j] by (simp add: Suc)
  qed
qed

text \<open>
  C8.  Flattening a marker set of N points gives a vector of length 3N in which the entries
  \<open>3i, 3i+1, 3i+2\<close> are the x, y, z of marker \<open>i\<close>; reshaping the vector back to rows of
  three (alone, or row by row for a whole array as \<open>extract_columns\<close> does) gives the
  marker set back, unchanged and in the same order.
\<close>

theorem flatten_roundtrip:
  "reshape3 (extract_input_features m) = Inr m \<and>
   reshape_rows (map extract_input_features ms) = Inr ms \<and>
   length (extract_input_features m) = 3 * length m \<and>
   (\<forall>i < length m.
      take 3 (drop (3 * i) (extract_input_features m)) = triple_list (m ! i))"
  using reshape3_flatten reshape_rows_flatten length_flatten flatten_slice by blast

theorem flatten_roundtrip_witness:
  "reshape3 (extract_input_features [(1::int, 2, 3), (4, 5, 6)]) = Inr [(1, 2, 3), (4, 5, 6)] \<and>
   extract_input_features [(1::int, 2, 3), (4, 5, 6)] = [1, 2, 3, 4, 5, 6] \<and>
   take 3 (drop (3 * 1) (extract_input_features [(1::int, 2, 3), (4, 5, 6)])) = [4, 5, 6]"
proof -
  have "(1::nat) < length [(1::int, 2, 3), (4, 5, 6)]" by simp
  with flatten_roundtrip [of "[(1::int, 2, 3), (4, 5, 6)]" "[]"]
  have "take 3 (drop (3 * 1) (extract_input_features [(1::int, 2, 3), (4, 5, 6)]))
        = triple_list ([(1::int, 2, 3), (4, 5, 6)] ! 1)" by blast
  with flatten_roundtrip [of "[(1::int, 2, 3), (4, 5, 6)]" "[]"]
  show ?thesis by (simp add: extract_input_features_def triple_list_def)
qed

subsection \<open>Angle normalisation in pre_process\<close>

lemma normalize_angle_within:
  "float_in (-180) 540 v \<Longrightarrow> float_within (-1) 1 (normalize_angle v)"
  by (cases v)
     (auto simp: float_in_def float_within_def normalize_angle_def shift_angle_def
        float_gt_def float_sub_def float_div_def)

lemma shift_angle_range:
  "180 < r \<Longrightarrow> r < 540 \<Longrightarrow>
   shift_angle (Some r) = Some (r - 360) \<and> float_in (-180) 180 (shift_angle (Some r))"
  by (simp add: shift_angle_def float_gt_def float_sub_def float_in_def)

lemma mask_rows_subset: "mask_rows flags xs = Inr ys \<Longrightarrow> set ys \<subseteq> set xs"
proof -
  assume "mask_rows flags xs = Inr ys"
  then have "ys = map snd (filter fst (zip flags xs))"
    by (simp add: mask_rows_def split: if_splits)
  then have "set ys \<subseteq> snd ` set (zip flags xs)" by auto
  also have "\<dots> \<subseteq> set xs" by (auto dest: set_zip_rightD)
  finally show ?thesis .
qed

lemma all_angles_normalized:
  assumes "list_all (list_all (\<lambda>joint. list_all (float_in (-180) 540) (triple_list joint))) a"
  shows "all_angles (float_within (-1) 1) (map (map (map_triple normalize_angle)) a)"
proof -
  have joint: "list_all (float_within (-1) 1) (triple_list (map_triple normalize_angle j))"
    if "list_all (float_in (-180) 540) (triple_list j)" for j
    using that by (cases j) (simp add: triple_list_def map_triple_def normalize_angle_within)
  have frame: "list_all (\<lambda>joint. list_all (float_within (-1) 1) (triple_list joint))
                 (map (map_triple normalize_angle) f)"
    if "list_all (\<lambda>joint. list_all (float_in (-180) 540) (triple_list joint)) f" for f
    using that by (induction f) (simp_all add: joint)
  show ?thesis
    using assms unfolding all_angles_def
    by (induction a) (simp_all add: frame)
qed

text \<open>
  C9, as the code has it.  The claim holds for angles in \<open>[-180, 540)\<close>: when every
  angle of the input is a number in that range, every angle \<open>pre_process\<close> returns lies
  in \<open>[-1, 1]\<close>, and a value above 180 is shifted by -360 into \<open>[-180, 180)\<close> before
  the division.  The code shifts once and never clamps, so an angle outside the range
  (or NaN) is not brought into \<open>[-1, 1]\<close>.
\<close>

theorem pre_process_angle_range:
  assumes "pre_process positions_hand orientations_hand positions_mocap = Inr (ph, oh, pm)"
    and "all_angles (float_in (-180) 540) orientations_hand"
  shows "all_angles (float_within (-1) 1) oh \<and>
         (\<forall>r. 180 < r \<and> r < 540 \<longrightarrow>
            shift_angle (Some r) = Some (r - 360) \<and> float_in (-180) 180 (shift_angle (Some r)))"
proof -
  from assms(1) obtain kept where
    kept: "mask_rows (nan_free_rows positions_mocap) orientations_hand = Inr kept"
    and oh: "oh = map (map (map_triple normalize_angle)) kept"
    by (auto simp: pre_process_def Let_def split: sum.splits)
  have "set kept \<subseteq> set orientations_hand" using kept by (rule mask_rows_subset)
  with assms(2)
  have "list_all (list_all (\<lambda>joint. list_all (float_in (-180) 540) (triple_list joint))) kept"
    unfolding all_angles_def by (auto simp: list_all_iff)
  then have "all_angles (float_within (-1) 1) oh"
    unfolding oh by (rule all_angles_normalized)
  then show ?thesis using shift_angle_range by blast
qed

text \<open>C9 as stated fails: 720 is shifted to 360 and normalised to 2, and -270 is not
  shifted at all and normalised to -3/2.\<close>

theorem pre_process_angle_range_counterexample:
  "pre_process [[(Some 0, Some 0, Some 0)]] [[(Some 720, Some (-270), Some 0)]]
       [[(Some 0, Some 0, Some 0)]]
     = Inr ([[(Some 0, Some 0, Some 0)]], [[(Some 2, Some (-3/2), Some 0)]],
            [[(Some 0, Some 0, Some 0)]]) \<and>
   shift_angle (Some 720) = Some 360 \<and>
   \<not> all_angles (float_within (-1) 1) [[(Some 2, Some (-3/2), Some 0)]]"
  by (simp add: pre_process_def nan_free_rows_def nan_count_def triple_list_def is_nan_def
      mask_rows_def map_triple_def normalize_angle_def shift_angle_def float_gt_def
      float_sub_def float_div_def all_angles_def float_within_def)

theorem pre_process_angle_range_witness:
  "pre_process [[(Some 0, Some 0, Some 0)], [(None, Some 0, Some 0)]]
       [[(Some 270, Some 90, Some (-180))], [(Some 1, Some 2, Some 3)]]
       [[(Some 0, Some 0, Some 0)], [(None, Some 0, Some 0)]]
     = Inr ([[(Some 0, Some 0, Some 0)]], [[(Some (-1/2), Some (1/2), Some (-1))]],
            [[(Some 0, Some 0, Some 0)]]) \<and>
   all_angles (float_in (-180) 540) [[(Some 270, Some 90, Some (-180))], [(Some 1, Some 2, Some 3)]] \<and>
   all_angles (float_within (-1) 1) [[(Some (-1/2), Some (1/2), Some (-1))]] \<and>
   shift_angle (Some 270) = Some (-90)"
proof -
  have p: "pre_process [[(Some 0, Some 0, Some 0)], [(None, Some 0, Some 0)]]
       [[(Some 270, Some 90, Some (-180))], [(Some 1, Some 2, Some 3)]]
       [[(Some 0, Some 0, Some 0)], [(None, Some 0, Some 0)]]
     = Inr ([[(Some 0, Some 0, Some 0)]], [[(Some (-1/2), Some (1/2), Some (-1))]],
            [[(Some 0, Some 0, Some 0)]])"
    by (simp add: pre_process_def nan_free_rows_def nan_count_def triple_list_def is_nan_def
      mask_rows_def map_triple_def normalize_angle_def shift_angle_def float_gt_def
      float_sub_def float_div_def)
  have a: "all_angles (float_in (-180) 540)
      [[(Some 270, Some 90, Some (-180))], [(Some 1, Some 2, Some 3)]]"
    by (simp add: all_angles_def float_in_def triple_list_def)
  have "(180::real) < 270 \<and> (270::real) < 540" by simp
  with pre_process_angle_range [OF p a] have "shift_angle (Some 270) = Some (270 - 360)"
    by blast
  with pre_process_angle_range [OF p a] p a show ?thesis by simp
qed

subsection \<open>The export format\<close>

lemma length_word_bytes: "length (word_bytes bo w) = 4"
  by (cases bo) (simp_all add: word_bytes_def le_bytes_def)

lemma fold_write_tensor:
  "fold (\<lambda>t f. write_tensor bo f t) ws out = out @ concat (map (tensor_bytes bo) ws)"
  by (induction ws arbitrary: out) (simp_all add: write_tensor_def tensor_bytes_def)

lemma wrapper_not_in_table [simp]:
  "LAYER_TYPES ''TimeDistributed'' = None" "LAYER_TYPES ''Bidirectional'' = None"
  by (simp_all add: LAYER_TYPES_def)

lemma count_layers_records:
  "count_layers model n = Inr m \<Longrightarrow> m = n + length (layer_records model)"
proof (induction model arbitrary: n)
  case Nil
  then show ?case by simp
next
  case (Cons l model)
  show ?case
  proof (cases "unwrap l")
    case (Layer name activation weights)
    show ?thesis
      using Cons.prems Cons.IH [of "Suc n"] Cons.IH [of n]
      by (auto simp: Layer split: if_splits)
  next
    case (TimeDistributed x)
    then show ?thesis using Cons by auto
  next
    case (Bidirectional x)
    then show ?thesis using Cons by auto
  qed
qed

lemma write_layers_records:
  "count_layers model n = Inr m \<Longrightarrow>
   write_layers bo model out =
     Inr (out @ concat (map (record_bytes bo) (layer_records model)))"
proof (induction model arbitrary: n out)
  case Nil
  then show ?case by simp
next
  case (Cons l model)
  show ?case
  proof (cases "unwrap l")
    case (Layer name activation weights)
    show ?thesis
      using Cons.prems Cons.IH [of "Suc n"] Cons.IH [of n]
      by (auto simp: Layer fold_write_tensor write_integer_def record_bytes_def
            split: if_splits)
  next
    case (TimeDistributed x)
    then show ?thesis using Cons by auto
  next
    case (Bidirectional x)
    then show ?thesis using Cons by auto
  qed
qed

lemma length_concat_word_bytes:
  "length (concat (map (\<lambda>x. word_bytes bo (f x)) xs)) = 4 * length xs"
  by (induction xs) (simp_all add: length_word_bytes)

lemma length_tensor_bytes: "length (tensor_bytes bo t) = 4 * tensor_fields t"
  using length_concat_word_bytes [of bo "\<lambda>d. of_nat d" "shape t"]
        length_concat_word_bytes [of bo "\<lambda>w. w" "data t"]
  by (simp add: tensor_bytes_def tensor_fields_def)

lemma length_tensors_bytes:
  "length (concat (map (tensor_bytes bo) ts)) = 4 * sum_list (map tensor_fields ts)"
  by (induction ts) (simp_all add: length_tensor_bytes)

lemma length_record_bytes: "length (record_bytes bo r) = 4 * record_fields r"
  by (cases r)
     (simp add: record_bytes_def record_fields_def length_word_bytes length_tensors_bytes)

lemma length_written_layout: "length (written_layout bo rs) = 4 * layout_fields rs"
proof -
  have "length (concat (map (record_bytes bo) rs)) = 4 * sum_list (map record_fields rs)"
    by (induction rs) (simp_all add: length_record_bytes)
  then show ?thesis
    by (simp add: written_layout_def layout_fields_def length_word_bytes)
qed

text \<open>
  C3, as the code has it.  When \<open>save_model\<close> returns, the file holds: the number of
  exported layers as an int32; then for each exported layer, in order, its kind code and
  its activation code as int32; then for each of its weight tensors the entries of the
  shape as int32, one per dimension, followed by the elements in row-major order.  The
  number of dimensions itself is not written.  Every field takes four bytes and nothing
  stands between the fields.
\<close>

theorem save_model_layout:
  assumes "save_model bo model filename fs = (fs', None)"
  shows "fs' = fs(filename \<mapsto> written_layout bo (layer_records model)) \<and>
         length (written_layout bo (layer_records model)) = 4 * layout_fields (layer_records model)"
proof -
  from assms obtain num_layers where c: "count_layers model 0 = Inr num_layers"
    by (auto simp: save_model_def split: sum.splits)
  have n: "num_layers = length (layer_records model)"
    using count_layers_records [OF c] by simp
  have w: "write_layers bo model (write_integer bo [] num_layers) =
           Inr (write_integer bo [] num_layers
                  @ concat (map (record_bytes bo) (layer_records model)))"
    by (rule write_layers_records [OF c])
  have "fs' = fs(filename \<mapsto> write_integer bo [] num_layers
                  @ concat (map (record_bytes bo) (layer_records model)))"
    using assms by (simp add: save_model_def c w)
  then have "fs' = fs(filename \<mapsto> written_layout bo (layer_records model))"
    by (simp add: written_layout_def n write_integer_def)
  then show ?thesis by (simp add: length_written_layout)
qed

theorem save_model_layout_witness:
  "save_model LittleEndian
     [Layer ''Dense'' ''relu'' [Tensor [1, 2] [0x3F800000, 0x40000000], Tensor [2] [0, 0]],
      Layer ''Dropout'' [] [],
      TimeDistributed (Layer ''Dense'' ''linear'' [Tensor [2, 1] [0x3F800000, 0xBF800000]])]
     ''joint_model.bin'' Map.empty
   = (Map.empty(''joint_model.bin'' \<mapsto>
        [2, 0, 0, 0,
         0, 0, 0, 0,  0, 0, 0, 0,
         1, 0, 0, 0,  2, 0, 0, 0,  0, 0, 128, 63,  0, 0, 0, 64,
         2, 0, 0, 0,  0, 0, 0, 0,  0, 0, 0, 0,
         0, 0, 0, 0,  1, 0, 0, 0,
         2, 0, 0, 0,  1, 0, 0, 0,  0, 0, 128, 63,  0, 0, 128, 191]), None)"
proof -
  let ?m = "[Layer ''Dense'' ''relu'' [Tensor [1, 2] [0x3F800000, 0x40000000], Tensor [2] [0, 0]],
      Layer ''Dropout'' [] [],
      TimeDistributed (Layer ''Dense'' ''linear'' [Tensor [2, 1] [0x3F800000, 0xBF800000]])]"
  have ok: "snd (save_model LittleEndian ?m ''joint_model.bin'' Map.empty) = None"
    by (simp add: save_model_def LAYER_TYPES_def ACTIVATION_TYPES_def)
  then have "save_model LittleEndian ?m ''joint_model.bin'' Map.empty
           = (fst (save_model LittleEndian ?m ''joint_model.bin'' Map.empty), None)"
    by (metis prod.collapse)
  from save_model_layout [OF this]
  have "fst (save_model LittleEndian ?m ''joint_model.bin'' Map.empty)
        = Map.empty(''joint_model.bin'' \<mapsto> written_layout LittleEndian (layer_records ?m))"
    by blast
  moreover have "written_layout LittleEndian (layer_records ?m) =
        [2, 0, 0, 0,
         0, 0, 0, 0,  0, 0, 0, 0,
         1, 0, 0, 0,  2, 0, 0, 0,  0, 0, 128, 63,  0, 0, 0, 64,
         2, 0, 0, 0,  0, 0, 0, 0,  0, 0, 0, 0,
         0, 0, 0, 0,  1, 0, 0, 0,
         2, 0, 0, 0,  1, 0, 0, 0,  0, 0, 128, 63,  0, 0, 128, 191]"
    by (simp add: written_layout_def record_bytes_def tensor_bytes_def word_bytes_def
          le_bytes_def LAYER_TYPES_def ACTIVATION_TYPES_def)
  ultimately show ?thesis using ok by (metis prod.collapse)
qed

text \<open>C3 as stated fails: for one Dense layer with one tensor of shape \<open>(2,)\<close> the file
  has six fields, the layout of the specification has seven (the \<open>ndims\<close> field 1
  before the shape entry 2).\<close>

theorem save_model_layout_counterexample:
  "fst (save_model LittleEndian [Layer ''Dense'' ''relu'' [Tensor [2] [0x3F800000, 0x40000000]]]
          ''joint_model.bin'' Map.empty) ''joint_model.bin''
     = Some [1, 0, 0, 0,  0, 0, 0, 0,  0, 0, 0, 0,
             2, 0, 0, 0,  0, 0, 128, 63,  0, 0, 0, 64] \<and>
   spec_layout LittleEndian
       (layer_records [Layer ''Dense'' ''relu'' [Tensor [2] [0x3F800000, 0x40000000]]])
     = [1, 0, 0, 0,  0, 0, 0, 0,  0, 0, 0, 0,
        1, 0, 0, 0,  2, 0, 0, 0,  0, 0, 128, 63,  0, 0, 0, 64] \<and>
   fst (save_model LittleEndian [Layer ''Dense'' ''relu'' [Tensor [2] [0x3F800000, 0x40000000]]]
          ''joint_model.bin'' Map.empty) ''joint_model.bin''
     \<noteq> Some (spec_layout LittleEndian
          (layer_records [Layer ''Dense'' ''relu'' [Tensor [2] [0x3F800000, 0x40000000]]]))"
  by (simp add: save_model_def write_integer_def write_tensor_def spec_layout_def
        spec_record_bytes_def spec_tensor_bytes_def word_bytes_def le_bytes_def
        LAYER_TYPES_def ACTIVATION_TYPES_def)

subsection \<open>Unsupported layers\<close>

lemma count_layers_bad:
  "list_ex bad_activation model \<Longrightarrow> \<exists>a. count_layers model n = Inl (UnsupportedActivation a)"
proof (induction model arbitrary: n)
  case Nil
  then show ?case by simp
next
  case (Cons l model)
  show ?case
  proof (cases "unwrap l")
    case (Layer name activation weights)
    show ?thesis
      using Cons.prems Cons.IH [of "Suc n"] Cons.IH [of n]
      by (auto simp: Layer bad_activation_def)
  next
    case (TimeDistributed x)
    then show ?thesis using Cons by (auto simp: bad_activation_def)
  next
    case (Bidirectional x)
    then show ?thesis using Cons by (auto simp: bad_activation_def)
  qed
qed

lemma count_layers_good:
  "\<not> list_ex bad_activation model \<Longrightarrow> \<exists>m. count_layers model n = Inr m"
proof (induction model arbitrary: n)
  case Nil
  then show ?case by simp
next
  case (Cons l model)
  show ?case
  proof (cases "unwrap l")
    case (Layer name activation weights)
    show ?thesis
      using Cons.prems Cons.IH [of "Suc n"] Cons.IH [of n]
      by (auto simp: Layer bad_activation_def)
  next
    case (TimeDistributed x)
    then show ?thesis using Cons by (auto simp: bad_activation_def)
  next
    case (Bidirectional x)
    then show ?thesis using Cons by (auto simp: bad_activation_def)
  qed
qed

lemma exported_unwrap:
  "unwrap l = Layer name activation weights \<Longrightarrow> exported l = (LAYER_TYPES name \<noteq> None)"
  "unwrap l = TimeDistributed x \<Longrightarrow> \<not> exported l"
  "unwrap l = Bidirectional x \<Longrightarrow> \<not> exported l"
  by (simp_all add: exported_def)

lemma count_layers_filter:
  "count_layers (filter exported model) n = count_layers model n"
proof (induction model arbitrary: n)
  case Nil
  then show ?case by simp
next
  case (Cons l model)
  show ?case
  proof (cases "unwrap l")
    case (Layer name activation weights)
    show ?thesis
      using exported_unwrap(1) [OF Layer] Cons.IH [of "Suc n"] Cons.IH [of n]
      by (cases "exported l") (simp_all add: Layer)
  next
    case (TimeDistributed x)
    show ?thesis
      using exported_unwrap(2) [OF TimeDistributed] Cons.IH [of n]
      by (simp add: TimeDistributed)
  next
    case (Bidirectional x)
    show ?thesis
      using exported_unwrap(3) [OF Bidirectional] Cons.IH [of n]
      by (simp add: Bidirectional)
  qed
qed

lemma write_layers_filter:
  "write_layers bo (filter exported model) out = write_layers bo model out"
proof (induction model arbitrary: out)
  case Nil
  then show ?case by simp
next
  case (Cons l model)
  show ?case
  proof (cases "unwrap l")
    case (Layer name activation weights)
    show ?thesis
      using exported_unwrap(1) [OF Layer] Cons.IH
      by (cases "exported l") (auto simp: Layer split: option.splits)
  next
    case (TimeDistributed x)
    show ?thesis
      using exported_unwrap(2) [OF TimeDistributed] Cons.IH
      by (simp add: TimeDistributed)
  next
    case (Bidirectional x)
    show ?thesis
      using exported_unwrap(3) [OF Bidirectional] Cons.IH
      by (simp add: Bidirectional)
  qed
qed

text \<open>
  C4, as the code has it.  A layer whose class (after unwrapping) is in \<open>LAYER_TYPES\<close> and
  whose activation is not in \<open>ACTIVATION_TYPES\<close> makes \<open>save_model\<close> raise in its first
  loop, before the file is opened: the file system is unchanged.  Without such a layer
  the export succeeds.  A layer whose class is not in \<open>LAYER_TYPES\<close> is passed over:
  the call does what it does on the model without those layers.
\<close>

theorem save_model_unsupported:
  "(list_ex bad_activation model \<longrightarrow>
      (\<exists>a. save_model bo model filename fs = (fs, Some (UnsupportedActivation a)))) \<and>
   (\<not> list_ex bad_activation model \<longrightarrow> snd (save_model bo model filename fs) = None) \<and>
   save_model bo (filter exported model) filename fs = save_model bo model filename fs"
proof (intro conjI impI)
  assume "list_ex bad_activation model"
  then obtain a where "count_layers model 0 = Inl (UnsupportedActivation a)"
    using count_layers_bad by blast
  then show "\<exists>a. save_model bo model filename fs = (fs, Some (UnsupportedActivation a))"
    by (simp add: save_model_def)
next
  assume "\<not> list_ex bad_activation model"
  then obtain m where c: "count_layers model 0 = Inr m"
    using count_layers_good by blast
  show "snd (save_model bo model filename fs) = None"
    by (simp add: save_model_def c write_layers_records [OF c])
next
  show "save_model bo (filter exported model) filename fs = save_model bo model filename fs"
    unfolding save_model_def count_layers_filter write_layers_filter ..
qed

theorem save_model_unsupported_witness:
  "list_ex bad_activation [Layer ''Dense'' ''relu'' [], Layer ''LSTM'' ''softmax'' []] \<and>
   save_model BigEndian [Layer ''Dense'' ''relu'' [], Layer ''LSTM'' ''softmax'' []]
       ''marker_model.bin'' Map.empty
     = (Map.empty, Some (UnsupportedActivation ''softmax''))"
proof -
  have b: "list_ex bad_activation [Layer ''Dense'' ''relu'' [], Layer ''LSTM'' ''softmax'' []]"
    by (simp add: bad_activation_def LAYER_TYPES_def ACTIVATION_TYPES_def)
  with save_model_unsupported
    [of "[Layer ''Dense'' ''relu'' [], Layer ''LSTM'' ''softmax'' []]" BigEndian
        "''marker_model.bin''" Map.empty]
  obtain a where "save_model BigEndian [Layer ''Dense'' ''relu'' [], Layer ''LSTM'' ''softmax'' []]
       ''marker_model.bin'' Map.empty = (Map.empty, Some (UnsupportedActivation a))"
    by blast
  moreover have "snd (save_model BigEndian
       [Layer ''Dense'' ''relu'' [], Layer ''LSTM'' ''softmax'' []]
       ''marker_model.bin'' Map.empty) = Some (UnsupportedActivation ''softmax'')"
    by (simp add: save_model_def LAYER_TYPES_def ACTIVATION_TYPES_def)
  ultimately show ?thesis using b by simp
qed

text \<open>C4 as stated fails: a layer of a class outside the table (here Dropout, and a
  convolution between two Dense layers) does not make the export fail.  The file is
  written, with a layer count that leaves those layers out.\<close>

theorem save_model_unsupported_counterexample:
  "save_model LittleEndian [Layer ''Dropout'' [] []] ''joint_model.bin'' Map.empty
     = (Map.empty(''joint_model.bin'' \<mapsto> [0, 0, 0, 0]), None) \<and>
   save_model LittleEndian
       [Layer ''Dense'' ''relu'' [], Layer ''Conv1D'' ''relu'' [Tensor [1] [0]],
        Layer ''Dense'' ''linear'' []]
       ''joint_model.bin'' Map.empty
     = (Map.empty(''joint_model.bin'' \<mapsto>
          [2, 0, 0, 0,  0, 0, 0, 0,  0, 0, 0, 0,  0, 0, 0, 0,  1, 0, 0, 0]), None)"
  by (simp add: save_model_def write_integer_def write_tensor_def word_bytes_def le_bytes_def
        LAYER_TYPES_def ACTIVATION_TYPES_def)

subsection \<open>Rigid motion\<close>














lemma cross_covariance_length:
  "length X = length Y \<Longrightarrow>
   cross_covariance X Y =
     Inr (foldr mat_add (map (\<lambda>(p, q). outer p q) (zip (centered Y) (centered X))) zero_mat)"
  by (simp add: cross_covariance_def transpose_dot_def centered_def)

lemma rigid_motion_unfold:
  assumes "cross_covariance X Y = Inr H" and "svd H = Inr (U, S, V)"
  shows "rigid_motion svd X Y =
     Inr (if det3 (mat_mul (transpose3 V) (transpose3 U)) < 0
          then mat_mul (transpose3 (negate_last_row V)) (transpose3 U)
          else mat_mul (transpose3 V) (transpose3 U),
          vec_add (vec_mat (vec_neg (mean_rows X))
             (if det3 (mat_mul (transpose3 V) (transpose3 U)) < 0
              then mat_mul (transpose3 (negate_last_row V)) (transpose3 U)
              else mat_mul (transpose3 V) (transpose3 U))) (mean_rows Y))"
  using assms by (simp add: rigid_motion_def Let_def)



text \<open>
  C2, as the code has it.  \<open>rigid_motion\<close> has no test of the number of points or of the
  rank of \<open>H\<close>.  For point sets of equal cardinality it fails exactly when the
  decomposition routine raises, with that exception; whenever the routine returns a
  decomposition of \<open>H\<close>, degenerate or not, \<open>rigid_motion\<close> returns a rotation and a
  translation.
\<close>

theorem rigid_motion_fails_only_with_svd:
  assumes "length X = length Y"
  shows "\<exists>H. cross_covariance X Y = Inr H \<and>
             (\<forall>e. (rigid_motion svd X Y = Inl e) = (svd H = Inl e)) \<and>
             ((\<exists>R t. rigid_motion svd X Y = Inr (R, t)) = (\<exists>U S V. svd H = Inr (U, S, V)))"
proof -
  from assms obtain H where H: "cross_covariance X Y = Inr H"
    using cross_covariance_length by blast
  show ?thesis
  proof (cases "svd H")
    case (Inl e)
    then have r: "rigid_motion svd X Y = Inl e"
      by (simp add: rigid_motion_def H)
    show ?thesis
    proof (intro exI [of _ H] conjI)
      show "cross_covariance X Y = Inr H" by (rule H)
      show "\<forall>e. (rigid_motion svd X Y = Inl e) = (svd H = Inl e)"
        unfolding r Inl by simp
      show "(\<exists>R t. rigid_motion svd X Y = Inr (R, t)) = (\<exists>U S V. svd H = Inr (U, S, V))"
        unfolding r Inl by simp
    qed
  next
    case (Inr usv)
    obtain U S V where usv: "usv = (U, S, V)" by (cases usv) auto
    have s: "svd H = Inr (U, S, V)" using Inr usv by simp
    obtain R t where r: "rigid_motion svd X Y = Inr (R, t)"
      using rigid_motion_unfold [of X Y H svd U S V, OF H s] by blast
    show ?thesis
    proof (intro exI [of _ H] conjI)
      show "cross_covariance X Y = Inr H" by (rule H)
      show "\<forall>e. (rigid_motion svd X Y = Inl e) = (svd H = Inl e)"
        unfolding r s by simp
      show "(\<exists>R t. rigid_motion svd X Y = Inr (R, t)) = (\<exists>U S V. svd H = Inr (U, S, V))"
        using r s by blast
    qed
  qed
qed

theorem rigid_motion_fails_only_with_svd_witness:
  "length [(1, 2, 3) :: vec3] = length [(4, 5, 6) :: vec3] \<and>
   cross_covariance [(1, 2, 3)] [(4, 5, 6)] = Inr zero_mat \<and>
   rigid_motion (\<lambda>H. Inl LinAlgError) [(1, 2, 3)] [(4, 5, 6)] = Inl LinAlgError"
proof -
  have l: "length [(1, 2, 3) :: vec3] = length [(4, 5, 6) :: vec3]" by simp
  have H: "cross_covariance [(1, 2, 3)] [(4, 5, 6)] = Inr zero_mat"
    by (simp add: cross_covariance_def transpose_dot_def centered_def mean_rows_def
          sum_rows_def zero3_def zero_mat_def)
  from rigid_motion_fails_only_with_svd [OF l, of "\<lambda>H. Inl LinAlgError"] H
  have "rigid_motion (\<lambda>H. Inl LinAlgError) [(1, 2, 3)] [(4, 5, 6)] = Inl LinAlgError"
    by auto
  then show ?thesis using l H by simp
qed

text \<open>C2 as stated fails: for one point (\<open>N < 3\<close>), and for three coincident points, \<open>H\<close>
  is the zero matrix; a routine that returns the decomposition \<open>I 0 I\<close> of the zero
  matrix makes \<open>rigid_motion\<close> return the identity rotation and a translation.\<close>

theorem rigid_motion_degenerate_counterexample:
  "cross_covariance [(1, 2, 3)] [(4, 5, 6)] = Inr zero_mat \<and>
   rigid_motion (\<lambda>H. Inr (identity3, zero3, identity3)) [(1, 2, 3)] [(4, 5, 6)]
     = Inr (identity3, (3, 3, 3)) \<and>
   cross_covariance [(1, 1, 1), (1, 1, 1), (1, 1, 1)] [(0, 0, 0), (3, 0, 0), (0, 3, 0)]
     = Inr zero_mat \<and>
   rigid_motion (\<lambda>H. Inr (identity3, zero3, identity3))
       [(1, 1, 1), (1, 1, 1), (1, 1, 1)] [(0, 0, 0), (3, 0, 0), (0, 3, 0)]
     = Inr (identity3, (0, 0, - 1))"
  by (simp add: rigid_motion_def cross_covariance_def transpose_dot_def centered_def
        mean_rows_def sum_rows_def zero3_def zero_mat_def identity3_def)

subsection \<open>Pose normalisation\<close>

lemma alignment_points_markers_config:
  "convert_to_index all_markers alignment_marker_names = Inr alignment_points_markers"
  by (simp add: all_markers_def alignment_marker_names_def alignment_points_markers_def)

lemma normalize_loop_step:
  assumes "normalize_loop svd Y a (i # js) st = (st', None)"
  obtains X st1 R offset where
    "take_rows (heap st a ! i) alignment_points_markers = Inr X"
    "st1 = (case rigid_motion svd X Y of
              Inl e \<Rightarrow> st\<lparr>error_count := error_count st + 1\<rparr>
            | Inr b \<Rightarrow> st\<lparr>binding := Some b\<rparr>)"
    "binding st1 = Some (R, offset)"
    "normalize_loop svd Y a js
       (st1\<lparr>heap := (heap st1)(a := (heap st1 a)[i := transform (heap st1 a ! i) R offset])\<rparr>)
     = (st', None)"
proof -
  from assms obtain X where X: "take_rows (heap st a ! i) alignment_points_markers = Inr X"
    by (auto split: sum.splits)
  define st1 where "st1 = (case rigid_motion svd X Y of
              Inl e \<Rightarrow> st\<lparr>error_count := error_count st + 1\<rparr>
            | Inr b \<Rightarrow> st\<lparr>binding := Some b\<rparr>)"
  from assms have loop: "(case binding st1 of
                None \<Rightarrow> (st1, Some UnboundLocalError)
              | Some (R, offset) \<Rightarrow>
                  normalize_loop svd Y a js
                    (st1\<lparr>heap := (heap st1)
                       (a := (heap st1 a)[i := transform (heap st1 a ! i) R offset])\<rparr>))
             = (st', None)"
    unfolding st1_def by (simp add: X Let_def)
  then obtain R offset where b: "binding st1 = Some (R, offset)"
    by (cases "binding st1") auto
  from loop have "normalize_loop svd Y a js
       (st1\<lparr>heap := (heap st1)(a := (heap st1 a)[i := transform (heap st1 a ! i) R offset])\<rparr>)
     = (st', None)"
    by (simp add: b)
  with X st1_def b show ?thesis by (rule that)
qed

lemma normalize_loop_frames:
  assumes "normalize_loop svd Y a js st = (st', None)" and "distinct js"
  shows "(\<forall>b. b \<noteq> a \<longrightarrow> heap st' b = heap st b) \<and>
         length (heap st' a) = length (heap st a) \<and>
         (\<forall>i. i \<notin> set js \<longrightarrow> heap st' a ! i = heap st a ! i) \<and>
         (\<forall>i \<in> set js. i < length (heap st a) \<longrightarrow>
            (\<forall>X R offset. take_rows (heap st a ! i) alignment_points_markers = Inr X \<longrightarrow>
               rigid_motion svd X Y = Inr (R, offset) \<longrightarrow>
               heap st' a ! i = transform (heap st a ! i) R offset))"
  using assms
proof (induction js arbitrary: st)
  case Nil
  then show ?case by simp
next
  case (Cons i js)
  from Cons.prems(1) obtain X st1 R offset where
    X: "take_rows (heap st a ! i) alignment_points_markers = Inr X"
    and st1: "st1 = (case rigid_motion svd X Y of
              Inl e \<Rightarrow> st\<lparr>error_count := error_count st + 1\<rparr>
            | Inr b \<Rightarrow> st\<lparr>binding := Some b\<rparr>)"
    and bind: "binding st1 = Some (R, offset)"
    and rec: "normalize_loop svd Y a js
       (st1\<lparr>heap := (heap st1)(a := (heap st1 a)[i := transform (heap st1 a ! i) R offset])\<rparr>)
     = (st', None)"
    by (rule normalize_loop_step)
  have h1: "heap st1 = heap st"
    unfolding st1 by (cases "rigid_motion svd X Y") simp_all
  have rm: "rigid_motion svd X Y = Inr (R', offset') \<Longrightarrow> R' = R \<and> offset' = offset"
    for R' offset'
    using bind unfolding st1 by simp
  define st2 where
    "st2 = st1\<lparr>heap := (heap st1)(a := (heap st1 a)[i := transform (heap st1 a ! i) R offset])\<rparr>"
  have h2: "heap st2 = (heap st)(a := (heap st a)[i := transform (heap st a ! i) R offset])"
    by (simp add: st2_def h1)
  from Cons.prems(2) have d: "distinct js" and ni: "i \<notin> set js" by simp_all
  note IH = Cons.IH [OF rec [folded st2_def] d]
  have other: "\<forall>b. b \<noteq> a \<longrightarrow> heap st' b = heap st b"
    using IH by (simp add: h2)
  have len: "length (heap st' a) = length (heap st a)"
    using IH by (simp add: h2)
  have untouched: "\<forall>k. k \<notin> set (i # js) \<longrightarrow> heap st' a ! k = heap st a ! k"
    using IH by (simp add: h2)
  have here: "heap st' a ! i = (heap st a)[i := transform (heap st a ! i) R offset] ! i"
    using IH ni by (simp add: h2)
  have touched: "\<forall>k \<in> set (i # js). k < length (heap st a) \<longrightarrow>
            (\<forall>X R offset. take_rows (heap st a ! k) alignment_points_markers = Inr X \<longrightarrow>
               rigid_motion svd X Y = Inr (R, offset) \<longrightarrow>
               heap st' a ! k = transform (heap st a ! k) R offset)"
  proof (intro ballI impI allI)
    fix k X' R' offset'
    assume k: "k \<in> set (i # js)" and kl: "k < length (heap st a)"
      and X': "take_rows (heap st a ! k) alignment_points_markers = Inr X'"
      and rm': "rigid_motion svd X' Y = Inr (R', offset')"
    show "heap st' a ! k = transform (heap st a ! k) R' offset'"
    proof (cases "k = i")
      case True
      with X X' have "X' = X" by simp
      with rm rm' have "R' = R" "offset' = offset" by simp_all
      with here kl True show ?thesis by simp
    next
      case False
      with k have kj: "k \<in> set js" by simp
      have same: "heap st2 a ! k = heap st a ! k" using False by (simp add: h2)
      have kl2: "k < length (heap st2 a)" using kl by (simp add: h2)
      have X2: "take_rows (heap st2 a ! k) alignment_points_markers = Inr X'"
        using X' by (simp only: same)
      from IH have "\<forall>i \<in> set js. i < length (heap st2 a) \<longrightarrow>
            (\<forall>X R offset. take_rows (heap st2 a ! i) alignment_points_markers = Inr X \<longrightarrow>
               rigid_motion svd X Y = Inr (R, offset) \<longrightarrow>
               heap st' a ! i = transform (heap st2 a ! i) R offset)"
        by blast
      with kj kl2 X2 rm' have "heap st' a ! k = transform (heap st2 a ! k) R' offset'"
        by blast
      then show ?thesis by (simp only: same)
    qed
  qed
  show ?case using other len untouched touched by blast
qed

text \<open>
  C10.  When \<open>normalize_positions\<close> returns, the reference it returns is the one it was
  given; no other array of the store has changed; the array has as many frames as
  before; and every frame whose alignment succeeded holds its own transformed
  coordinates, \<open>frame.dot(R) + offset\<close>.
\<close>

theorem normalize_positions_in_place:
  assumes "normalize_positions svd hand a s = (s', Inr (r, n))"
  shows "r = a \<and> (\<forall>b. b \<noteq> a \<longrightarrow> s' b = s b) \<and> length (s' a) = length (s a) \<and>
         (\<exists>Y. take_rows hand alignment_points_markers = Inr Y \<and>
            (\<forall>i < length (s a). \<forall>X R offset.
               take_rows (s a ! i) alignment_points_markers = Inr X \<longrightarrow>
               rigid_motion svd X Y = Inr (R, offset) \<longrightarrow>
               s' a ! i = transform (s a ! i) R offset))"
proof -
  from assms obtain Y where Y: "take_rows hand alignment_points_markers = Inr Y"
    by (auto simp: normalize_positions_def split: sum.splits)
  define st0 where "st0 = \<lparr>error_count = 0, binding = None, heap = s\<rparr>"
  obtain st err where loop: "normalize_loop svd Y a [0..<length (s a)] st0 = (st, err)"
    by (cases "normalize_loop svd Y a [0..<length (s a)] st0") auto
  from assms have res: "err = None" "s' = heap st" "r = a"
    by (auto simp: normalize_positions_def Y loop [unfolded st0_def] split: option.splits)
  have h0: "heap st0 = s" by (simp add: st0_def)
  note inv = normalize_loop_frames [OF loop [unfolded res(1)] distinct_upt, unfolded h0]
  have "\<forall>i < length (s a). \<forall>X R offset.
               take_rows (s a ! i) alignment_points_markers = Inr X \<longrightarrow>
               rigid_motion svd X Y = Inr (R, offset) \<longrightarrow>
               heap st a ! i = transform (s a ! i) R offset"
    using inv by simp
  then show ?thesis using inv Y res by blast
qed

theorem normalize_positions_in_place_witness:
  "normalize_positions (\<lambda>H. if H = zero_mat then Inl LinAlgError else Inr (identity3, (2, 2 / 3, 0), identity3))
     [(1, 0, 0), (- 1, 0, 0), (0, 1, 0), (0, 0, 1)] 5 ((\<lambda>b. [])(5 := [[(2, 0, 0), (0, 0, 0), (1, 1, 0), (1, 0, 1)]]))
   = ((\<lambda>b. [])(5 := [[(1, 0, 0), (- 1, 0, 0), (0, 1, 0), (0, 0, 1)]]), Inr (5, 0)) \<and>
   rigid_motion (\<lambda>H. if H = zero_mat then Inl LinAlgError else Inr (identity3, (2, 2 / 3, 0), identity3)) [(2, 0, 0), (0, 0, 0), (1, 1, 0)] [(1, 0, 0), (- 1, 0, 0), (0, 1, 0)]
   = Inr (identity3, (- 1, 0, 0)) \<and>
   transform [(2, 0, 0), (0, 0, 0), (1, 1, 0), (1, 0, 1)] identity3 (- 1, 0, 0) = [(1, 0, 0), (- 1, 0, 0), (0, 1, 0), (0, 0, 1)]"
proof -
  let ?svd = "(\<lambda>H. if H = zero_mat then Inl LinAlgError else Inr (identity3, (2, 2 / 3, 0), identity3)) :: svd_routine"
  let ?hand = "[(1, 0, 0), (- 1, 0, 0), (0, 1, 0), (0, 0, 1)] :: markers"
  let ?f0 = "[(2, 0, 0), (0, 0, 0), (1, 1, 0), (1, 0, 1)] :: markers"
  let ?s = "(\<lambda>b. [])(5 := [?f0]) :: store"
  have Y: "take_rows ?hand alignment_points_markers = Inr [(1, 0, 0), (- 1, 0, 0), (0, 1, 0)]"
    by (simp add: alignment_points_markers_def)
  have X: "take_rows ?f0 alignment_points_markers = Inr [(2, 0, 0), (0, 0, 0), (1, 1, 0)]"
    by (simp add: alignment_points_markers_def)
  have H: "cross_covariance [(2, 0, 0), (0, 0, 0), (1, 1, 0)] [(1, 0, 0), (- 1, 0, 0), (0, 1, 0)]
           = Inr ((2, 0, 0), (0, 2 / 3, 0), (0, 0, 0))"
    by (simp add: cross_covariance_def transpose_dot_def centered_def mean_rows_def
          sum_rows_def zero3_def zero_mat_def)
  have rm: "rigid_motion ?svd [(2, 0, 0), (0, 0, 0), (1, 1, 0)] [(1, 0, 0), (- 1, 0, 0), (0, 1, 0)]
            = Inr (identity3, (- 1, 0, 0))"
    by (simp add: rigid_motion_def H Let_def zero_mat_def zero3_def identity3_def
          mean_rows_def sum_rows_def)
  have t: "transform ?f0 identity3 (- 1, 0, 0) = ?hand"
    by (simp add: transform_def identity3_def)
  have run: "normalize_positions ?svd ?hand 5 ?s = (?s(5 := [?hand]), Inr (5, 0))"
    by (simp add: normalize_positions_def Y X rm t Let_def)
  from normalize_positions_in_place [OF run]
  have q: "\<forall>i < length (?s 5). \<forall>X R offset.
               take_rows (?s 5 ! i) alignment_points_markers = Inr X \<longrightarrow>
               rigid_motion ?svd X [(1, 0, 0), (- 1, 0, 0), (0, 1, 0)] = Inr (R, offset) \<longrightarrow>
               (?s(5 := [?hand])) 5 ! i = transform (?s 5 ! i) R offset"
    using Y by simp
  have "(?s(5 := [?hand])) 5 ! 0 = transform (?s 5 ! 0) identity3 (- 1, 0, 0)"
    by (rule q [rule_format, of 0 "[(2, 0, 0), (0, 0, 0), (1, 1, 0)]"])
       (simp_all add: X rm)
  then have "transform ?f0 identity3 (- 1, 0, 0) = ?hand" by simp
  with run rm show ?thesis by simp
qed

text \<open>
  C1: what the code does where the claim fails.  In a batch of two frames whose second
  alignment raises, the call returns with an error count of 1, but the second frame is
  not left as it was: it is transformed with the rotation and offset of the first
  frame, which are still bound.  When the failing frame comes first, \<open>R\<close> is unbound
  at the assignment and the call ends with UnboundLocalError: the run aborts, with the
  array unchanged and no count reported.
\<close>

theorem normalize_positions_failed_alignment:
  assumes "take_rows hand alignment_points_markers = Inr Y"
    and "take_rows f0 alignment_points_markers = Inr X0"
    and "take_rows f1 alignment_points_markers = Inr X1"
    and "rigid_motion svd X0 Y = Inr (R, offset)"
    and "rigid_motion svd X1 Y = Inl e"
  shows "normalize_positions svd hand a (s(a := [f0, f1]))
           = (s(a := [transform f0 R offset, transform f1 R offset]), Inr (a, 1)) \<and>
         normalize_positions svd hand a (s(a := [f1, f0]))
           = (s(a := [f1, f0]), Inl UnboundLocalError)"
  using assms by (simp add: normalize_positions_def Let_def)

theorem normalize_positions_failed_alignment_witness:
  "normalize_positions (\<lambda>H. if H = zero_mat then Inl LinAlgError else Inr (identity3, (2, 2 / 3, 0), identity3))
     [(1, 0, 0), (- 1, 0, 0), (0, 1, 0), (0, 0, 1)] 0 ((\<lambda>b. [])(0 := [[(2, 0, 0), (0, 0, 0), (1, 1, 0), (1, 0, 1)], [(7, 7, 7), (7, 7, 7), (7, 7, 7), (1, 1, 1)]]))
   = ((\<lambda>b. [])(0 := [[(1, 0, 0), (- 1, 0, 0), (0, 1, 0), (0, 0, 1)], [(6, 7, 7), (6, 7, 7), (6, 7, 7), (0, 1, 1)]]), Inr (0, 1)) \<and>
   normalize_positions (\<lambda>H. if H = zero_mat then Inl LinAlgError else Inr (identity3, (2, 2 / 3, 0), identity3))
     [(1, 0, 0), (- 1, 0, 0), (0, 1, 0), (0, 0, 1)] 0 ((\<lambda>b. [])(0 := [[(7, 7, 7), (7, 7, 7), (7, 7, 7), (1, 1, 1)], [(2, 0, 0), (0, 0, 0), (1, 1, 0), (1, 0, 1)]]))
   = ((\<lambda>b. [])(0 := [[(7, 7, 7), (7, 7, 7), (7, 7, 7), (1, 1, 1)], [(2, 0, 0), (0, 0, 0), (1, 1, 0), (1, 0, 1)]]), Inl UnboundLocalError) \<and>
   rigid_motion (\<lambda>H. if H = zero_mat then Inl LinAlgError else Inr (identity3, (2, 2 / 3, 0), identity3)) [(7, 7, 7), (7, 7, 7), (7, 7, 7)] [(1, 0, 0), (- 1, 0, 0), (0, 1, 0)]
   = Inl LinAlgError"
proof -
  let ?svd = "(\<lambda>H. if H = zero_mat then Inl LinAlgError else Inr (identity3, (2, 2 / 3, 0), identity3)) :: svd_routine"
  let ?hand = "[(1, 0, 0), (- 1, 0, 0), (0, 1, 0), (0, 0, 1)] :: markers"
  let ?f0 = "[(2, 0, 0), (0, 0, 0), (1, 1, 0), (1, 0, 1)] :: markers"
  let ?f1 = "[(7, 7, 7), (7, 7, 7), (7, 7, 7), (1, 1, 1)] :: markers"
  have Y: "take_rows ?hand alignment_points_markers = Inr [(1, 0, 0), (- 1, 0, 0), (0, 1, 0)]"
    by (simp add: alignment_points_markers_def)
  have X0: "take_rows ?f0 alignment_points_markers = Inr [(2, 0, 0), (0, 0, 0), (1, 1, 0)]"
    by (simp add: alignment_points_markers_def)
  have X1: "take_rows ?f1 alignment_points_markers = Inr [(7, 7, 7), (7, 7, 7), (7, 7, 7)]"
    by (simp add: alignment_points_markers_def)
  have H0: "cross_covariance [(2, 0, 0), (0, 0, 0), (1, 1, 0)] [(1, 0, 0), (- 1, 0, 0), (0, 1, 0)]
           = Inr ((2, 0, 0), (0, 2 / 3, 0), (0, 0, 0))"
    by (simp add: cross_covariance_def transpose_dot_def centered_def mean_rows_def
          sum_rows_def zero3_def zero_mat_def)
  have H1: "cross_covariance [(7, 7, 7), (7, 7, 7), (7, 7, 7)] [(1, 0, 0), (- 1, 0, 0), (0, 1, 0)]
           = Inr zero_mat"
    by (simp add: cross_covariance_def transpose_dot_def centered_def mean_rows_def
          sum_rows_def zero3_def zero_mat_def)
  have rm0: "rigid_motion ?svd [(2, 0, 0), (0, 0, 0), (1, 1, 0)] [(1, 0, 0), (- 1, 0, 0), (0, 1, 0)]
            = Inr (identity3, (- 1, 0, 0))"
    by (simp add: rigid_motion_def H0 Let_def zero_mat_def zero3_def identity3_def
          mean_rows_def sum_rows_def)
  have rm1: "rigid_motion ?svd [(7, 7, 7), (7, 7, 7), (7, 7, 7)] [(1, 0, 0), (- 1, 0, 0), (0, 1, 0)]
            = Inl LinAlgError"
    by (simp add: rigid_motion_def H1 Let_def)
  have t0: "transform ?f0 identity3 (- 1, 0, 0) = ?hand"
    by (simp add: transform_def identity3_def)
  have t1: "transform ?f1 identity3 (- 1, 0, 0) = [(6, 7, 7), (6, 7, 7), (6, 7, 7), (0, 1, 1)]"
    by (simp add: transform_def identity3_def)
  from normalize_positions_failed_alignment [OF Y X0 X1 rm0 rm1, of 0 "\<lambda>b. []"] rm1
  show ?thesis unfolding t0 t1 by simp
qed

subsection \<open>The occlusion generator: one sample\<close>

lemma take_rows_map:
  "take_rows xs js = Inr r \<Longrightarrow> r = map (\<lambda>i. xs ! i) js \<and> list_all (\<lambda>i. i < length xs) js"
  by (induction js arbitrary: r) (auto split: if_splits sum.splits)

lemma fold_list_update:
  "fold (\<lambda>i acc. acc[i := z]) js y = map (\<lambda>j. if j \<in> set js then z else y ! j) [0..<length y]"
proof (induction js arbitrary: y)
  case Nil
  then show ?case by (simp add: map_nth)
next
  case (Cons i js)
  have "fold (\<lambda>i acc. acc[i := z]) (i # js) y
        = map (\<lambda>j. if j \<in> set js then z else y[i := z] ! j) [0..<length y]"
    using Cons.IH [of "y[i := z]"] by simp
  also have "\<dots> = map (\<lambda>j. if j \<in> set (i # js) then z else y ! j) [0..<length y]"
    by (rule map_cong) (auto simp: nth_list_update)
  finally show ?case .
qed

lemma zero_rows_map:
  "zero_rows (sort (remdups occ)) y = Inr x \<Longrightarrow>
   x = map (\<lambda>j. if j \<in> set occ then zero3 else y ! j) [0..<length y]"
  by (auto simp: zero_rows_def fold_list_update split: if_splits)

lemma extract_features_result:
  assumes "extract_features svd hand sample occ = Inr (x, y)"
  shows "\<exists>R offset.
           rigid_motion svd
              (map (\<lambda>i. sample ! i) (available_markers (length sample) occ))
              (map (\<lambda>i. hand ! i) (available_markers (length sample) occ))
             = Inr (R, offset) \<and>
           y = extract_input_features (transform sample R offset) \<and>
           x = extract_input_features
                 (map (\<lambda>j. if j \<in> set occ then zero3 else transform sample R offset ! j)
                    [0..<length sample])"
proof -
  let ?av = "available_markers (length sample) occ"
  from assms obtain Xa Ya R offset xs where
    Xa: "take_rows sample ?av = Inr Xa" and Ya: "take_rows hand ?av = Inr Ya"
    and rm: "rigid_motion svd Xa Ya = Inr (R, offset)"
    and z: "zero_rows (sort (remdups occ)) (transform sample R offset) = Inr xs"
    and x: "x = extract_input_features xs"
    and y: "y = extract_input_features (transform sample R offset)"
    by (auto simp: extract_features_def Let_def split: sum.splits)
  have "Xa = map (\<lambda>i. sample ! i) ?av" "Ya = map (\<lambda>i. hand ! i) ?av"
    using take_rows_map [OF Xa] take_rows_map [OF Ya] by simp_all
  moreover have "xs = map (\<lambda>j. if j \<in> set occ then zero3 else transform sample R offset ! j)
                    [0..<length sample]"
    using zero_rows_map [OF z] by (simp add: transform_def)
  ultimately show ?thesis using rm x y by blast
qed

lemma draw_occlusions_fixed:
  assumes "randint_ok rnd" "choice_ok rnd" "k \<noteq> - 1"
    and "draw_occlusions rnd k k g = Inr (occ, g')"
  shows "distinct occ \<and> int (length occ) = k \<and> list_all (\<lambda>i. i < length all_markers) occ"
proof -
  from assms(3,4) obtain num g1 where
    r: "draw_randint rnd k (k + 1) g = Inr (num, g1)"
    and c: "draw_choice rnd (length all_markers) num g1 = Inr (occ, g')"
    by (auto simp: draw_occlusions_def split: sum.splits)
  from r have "num = fst (rnd_randint rnd k (k + 1) g)"
    by (auto simp: draw_randint_def split: if_splits)
  moreover have "k \<le> fst (rnd_randint rnd k (k + 1) g) \<and> fst (rnd_randint rnd k (k + 1) g) < k + 1"
    using assms(1) [unfolded randint_ok_def, rule_format, of k "k + 1" g] by simp
  ultimately have num: "num = k" by linarith
  from c have k: "0 \<le> k" "nat k \<le> length all_markers"
    and occ: "occ = fst (rnd_choice rnd (length all_markers) (nat k) g1)"
    unfolding num by (auto simp: draw_choice_def split: if_splits)
  from assms(2) k(2) have "distinct occ \<and> length occ = nat k \<and>
      list_all (\<lambda>i. i < length all_markers) occ"
    unfolding choice_ok_def occ by blast
  with k(1) show ?thesis by simp
qed

lemma sample_step_occlusion:
  assumes "randint_ok rnd" "choice_ok rnd" "k \<noteq> - 1"
    and "sample_step rnd svd hand X k k st = Inr ((idx, x, y), st')"
  shows "\<exists>occ R offset.
           idx < length X \<and> length (X ! idx) = length all_markers \<and>
           distinct occ \<and> int (length occ) = k \<and> list_all (\<lambda>i. i < length all_markers) occ \<and>
           rigid_motion svd
              (map (\<lambda>i. (X ! idx) ! i) (available_markers (length (X ! idx)) occ))
              (map (\<lambda>i. hand ! i) (available_markers (length (X ! idx)) occ))
             = Inr (R, offset) \<and>
           y = extract_input_features (transform (X ! idx) R offset) \<and>
           x = extract_input_features
                 (map (\<lambda>j. if j \<in> set occ then zero3 else transform (X ! idx) R offset ! j)
                    [0..<length (X ! idx)])"
proof -
  from assms(4) obtain st1 occ g where
    sel: "select_sample rnd (length X) st = Inr (idx, st1)"
    and dr: "draw_occlusions rnd k k (rng st1) = Inr (occ, g)"
    and idx: "idx < length X"
    and ef: "extract_features svd hand (X ! idx) occ = Inr (x, y)"
    and ly: "length y = length all_markers * 3"
    by (auto simp: sample_step_def split: sum.splits if_splits)
  from extract_features_result [OF ef] obtain R offset where
    rm: "rigid_motion svd
              (map (\<lambda>i. (X ! idx) ! i) (available_markers (length (X ! idx)) occ))
              (map (\<lambda>i. hand ! i) (available_markers (length (X ! idx)) occ))
             = Inr (R, offset)"
    and y: "y = extract_input_features (transform (X ! idx) R offset)"
    and x: "x = extract_input_features
                 (map (\<lambda>j. if j \<in> set occ then zero3 else transform (X ! idx) R offset ! j)
                    [0..<length (X ! idx)])"
    by blast
  have "length y = 3 * length (X ! idx)"
    unfolding y by (simp add: length_flatten transform_def)
  with ly have len: "length (X ! idx) = length all_markers" by simp
  from draw_occlusions_fixed [OF assms(1,2,3) dr] idx len rm x y
  show ?thesis by blast
qed

lemma fill_batch_rows:
  "fill_batch rnd svd hand X mn mx m st = Inr (rows, st') \<Longrightarrow>
   length rows = m \<and>
   (\<forall>j < m. \<exists>s s'. sample_step rnd svd hand X mn mx s = Inr (rows ! j, s'))"
proof (induction m arbitrary: st rows)
  case 0
  then show ?case by simp
next
  case (Suc m)
  from Suc.prems obtain row st1 rest where
    step: "sample_step rnd svd hand X mn mx st = Inr (row, st1)"
    and rest: "fill_batch rnd svd hand X mn mx m st1 = Inr (rest, st')"
    and rows: "rows = row # rest"
    by (auto split: sum.splits)
  from Suc.IH [OF rest] have len: "length rest = m"
    and all: "\<forall>j < m. \<exists>s s'. sample_step rnd svd hand X mn mx s = Inr (rest ! j, s')"
    by simp_all
  have "\<exists>s s'. sample_step rnd svd hand X mn mx s = Inr (rows ! j, s')" if "j < Suc m" for j
  proof (cases j)
    case 0
    then show ?thesis using step rows by auto
  next
    case (Suc i)
    with that have "i < m" by simp
    with all show ?thesis by (simp add: rows Suc)
  qed
  then show ?case using len rows by simp
qed

lemma flipping_rng_ok:
  "permutation_ok flipping_rng" "randint_ok flipping_rng" "choice_ok flipping_rng"
  by (simp_all add: permutation_ok_def randint_ok_def choice_ok_def flipping_rng_def
        list_all_iff)

lemma example_features:
  "extract_features example_svd example_template example_sample [0, 1]
   = Inr (example_input, example_target)"
proof -
  have av: "available_markers (length example_sample) [0, 1] = [2, 3, 4, 5, 6, 7, 8]"
    by (simp add: available_markers_def example_sample_def upt_rec)
  have Xa: "take_rows example_sample [2, 3, 4, 5, 6, 7, 8]
            = Inr [(2, 1, 1), (0, 1, 1), (1, 2, 1), (1, 0, 1), (1, 1, 2), (1, 1, 0), (1, 1, 1)]"
    by (simp add: example_sample_def)
  have Ya: "take_rows example_template [2, 3, 4, 5, 6, 7, 8]
            = Inr [(1, 0, 0), (- 1, 0, 0), (0, 1, 0), (0, - 1, 0), (0, 0, 1), (0, 0, - 1), (0, 0, 0)]"
    by (simp add: example_template_def)
  have rm: "rigid_motion example_svd
              [(2, 1, 1), (0, 1, 1), (1, 2, 1), (1, 0, 1), (1, 1, 2), (1, 1, 0), (1, 1, 1)]
              [(1, 0, 0), (- 1, 0, 0), (0, 1, 0), (0, - 1, 0), (0, 0, 1), (0, 0, - 1), (0, 0, 0)]
            = Inr (identity3, (- 1, - 1, - 1))"
    by (simp add: rigid_motion_def cross_covariance_def transpose_dot_def centered_def
          mean_rows_def sum_rows_def zero3_def zero_mat_def example_svd_def identity3_def)
  have t: "transform example_sample identity3 (- 1, - 1, - 1) = example_template"
    by (simp add: transform_def example_sample_def example_template_def identity3_def)
  have z: "zero_rows (sort (remdups [0, 1])) example_template
           = Inr [(0, 0, 0), (0, 0, 0), (1, 0, 0), (- 1, 0, 0), (0, 1, 0), (0, - 1, 0), (0, 0, 1),
                  (0, 0, - 1), (0, 0, 0)]"
    by (simp add: zero_rows_def example_template_def zero3_def)
  show ?thesis
    by (simp only: extract_features_def Let_def av Xa Ya rm t z sum.case prod.case)
       (simp add: extract_input_features_def triple_list_def example_template_def
          example_input_def example_target_def)
qed

lemma example_draw: "draw_occlusions flipping_rng 2 2 g = Inr ([0, 1], g)"
proof -
  have u: "[0..<2::nat] = [0, 1]" by (simp add: upt_rec)
  show ?thesis
    by (simp add: draw_occlusions_def draw_randint_def draw_choice_def flipping_rng_def
          all_markers_def u)
qed

lemma example_sample_step:
  assumes "select_sample flipping_rng (length X) st = Inr (idx, st1)"
    and "idx < length X" and "X ! idx = example_sample"
  shows "sample_step flipping_rng example_svd example_template X 2 2 st
         = Inr ((idx, example_input, example_target), st1)"
proof -
  have l: "length example_input = length all_markers * 3"
          "length example_target = length all_markers * 3"
    by (simp_all add: example_input_def example_target_def all_markers_def)
  have r: "st1\<lparr>rng := rng st1\<rparr> = st1" by simp
  have n: "(length X \<le> idx) = False" using assms(2) by simp
  show ?thesis
    by (simp only: sample_step_def assms(1,3) example_draw example_features sum.case
          prod.case n l r if_False simp_thms)
qed

lemma example_fill_batch:
  "counter st = 1 \<Longrightarrow>
   fill_batch flipping_rng example_svd example_template [example_sample] 2 2 m st
   = Inr (replicate m (0, example_input, example_target),
          if m = 0 then st else \<lparr>counter = 1, indices = Some [0], rng = rng st + m\<rparr>)"
proof (induction m arbitrary: st)
  case 0
  then show ?case by simp
next
  case (Suc m)
  let ?st1 = "\<lparr>counter = 1, indices = Some [0], rng = Suc (rng st)\<rparr>"
  have sel: "select_sample flipping_rng (length [example_sample]) st = Inr (0, ?st1)"
    using Suc.prems by (simp add: select_sample_def flipping_rng_def)
  have step: "sample_step flipping_rng example_svd example_template [example_sample] 2 2 st
         = Inr ((0, example_input, example_target), ?st1)"
    by (rule example_sample_step [OF sel]) simp_all
  have "counter ?st1 = 1" by simp
  from Suc.IH [OF this] show ?case
    by (simp add: step)
qed

subsection \<open>The occlusion generator: the cursor\<close>

lemma sample_step_cursor:
  assumes "sample_step rnd svd hand X mn mx st = Inr ((idx, x, y), st')"
  shows "\<exists>st1. select_sample rnd (length X) st = Inr (idx, st1) \<and>
               counter st' = counter st1 \<and> indices st' = indices st1"
  using assms by (auto simp: sample_step_def split: sum.splits if_splits)

lemma select_sample_mid:
  assumes "select_sample rnd n st = Inr (idx, st1)"
    and "indices st = Some p" and "counter st \<noteq> n"
  shows "idx = p ! counter st \<and> counter st < length p \<and>
         counter st1 = counter st + 1 \<and> indices st1 = Some p"
  using assms by (auto simp: select_sample_def Let_def split: if_splits)

lemma select_sample_reset:
  assumes "select_sample rnd n st = Inr (idx, st1)" and "counter st = n"
  shows "idx = fst (rnd_permutation rnd n (rng st)) ! 0 \<and>
         0 < length (fst (rnd_permutation rnd n (rng st))) \<and>
         counter st1 = 1 \<and> indices st1 = Some (fst (rnd_permutation rnd n (rng st)))"
  using assms
  by (cases "rnd_permutation rnd n (rng st)")
     (auto simp: select_sample_def Let_def split: if_splits)

lemma permutation_length: "permutation_ok rnd \<Longrightarrow> length (fst (rnd_permutation rnd n g)) = n"
proof -
  assume "permutation_ok rnd"
  then have "mset (fst (rnd_permutation rnd n g)) = mset [0..<n]"
    unfolding permutation_ok_def by blast
  then have "size (mset (fst (rnd_permutation rnd n g))) = size (mset [0..<n])" by simp
  then show ?thesis by (simp del: mset_upt)
qed

lemma fill_batch_mid:
  assumes "fill_batch rnd svd hand X mn mx m st = Inr (rows, st')"
    and "indices st = Some p" and "length p = length X" and "counter st + m \<le> length X"
  shows "map fst rows = take m (drop (counter st) p) \<and> length rows = m \<and>
         (0 < m \<longrightarrow> indices st' = Some p \<and> counter st' = counter st + m)"
  using assms
proof (induction m arbitrary: st rows)
  case 0
  then show ?case by simp
next
  case (Suc m)
  from Suc.prems(1) obtain row st1 rest where
    step: "sample_step rnd svd hand X mn mx st = Inr (row, st1)"
    and rest: "fill_batch rnd svd hand X mn mx m st1 = Inr (rest, st')"
    and rows: "rows = row # rest"
    by (auto split: sum.splits)
  obtain idx x y where row: "row = (idx, x, y)" by (cases row) auto
  from sample_step_cursor [OF step [unfolded row]] obtain st0 where
    sel: "select_sample rnd (length X) st = Inr (idx, st0)"
    and c1: "counter st1 = counter st0" and i1: "indices st1 = indices st0"
    by blast
  have ne: "counter st \<noteq> length X" using Suc.prems(4) by simp
  from select_sample_mid [OF sel Suc.prems(2) ne]
  have idx: "idx = p ! counter st" and lt: "counter st < length p"
    and c0: "counter st0 = counter st + 1" and i0: "indices st0 = Some p"
    by simp_all
  have c: "counter st1 = Suc (counter st)" and i: "indices st1 = Some p"
    using c1 c0 i1 i0 by simp_all
  have le: "counter st1 + m \<le> length X" using Suc.prems(4) c by simp
  from Suc.IH [OF rest i Suc.prems(3) le]
  have ih: "map fst rest = take m (drop (counter st1) p)" "length rest = m"
    "0 < m \<longrightarrow> indices st' = Some p \<and> counter st' = counter st1 + m"
    by simp_all
  have "take (Suc m) (drop (counter st) p) = p ! counter st # take m (drop (Suc (counter st)) p)"
    using lt by (simp add: Cons_nth_drop_Suc [symmetric])
  then have 1: "map fst rows = take (Suc m) (drop (counter st) p)"
    using ih(1) by (simp add: rows row idx c)
  have 2: "indices st' = Some p \<and> counter st' = counter st + Suc m"
  proof (cases m)
    case 0
    with rest have "st' = st1" by simp
    with c i 0 show ?thesis by simp
  next
    case (Suc k)
    with ih(3) c show ?thesis by simp
  qed
  show ?case using 1 2 ih(2) rows by simp
qed

lemma fill_batch_pass:
  assumes "permutation_ok rnd" and "0 < length X" and "counter st = length X"
    and "fill_batch rnd svd hand X mn mx (length X) st = Inr (rows, st')"
  shows "map fst rows = fst (rnd_permutation rnd (length X) (rng st)) \<and>
         counter st' = length X"
proof -
  let ?p = "fst (rnd_permutation rnd (length X) (rng st))"
  have lp: "length ?p = length X" using assms(1) by (rule permutation_length)
  from assms(2) obtain m where n: "length X = Suc m" by (cases "length X") auto
  from assms(4) [unfolded n] obtain row st1 rest where
    step: "sample_step rnd svd hand X mn mx st = Inr (row, st1)"
    and rest: "fill_batch rnd svd hand X mn mx m st1 = Inr (rest, st')"
    and rows: "rows = row # rest"
    by (auto split: sum.splits)
  obtain idx x y where row: "row = (idx, x, y)" by (cases row) auto
  from sample_step_cursor [OF step [unfolded row]] obtain st0 where
    sel: "select_sample rnd (length X) st = Inr (idx, st0)"
    and c1: "counter st1 = counter st0" and i1: "indices st1 = indices st0"
    by blast
  from select_sample_reset [OF sel assms(3)]
  have idx: "idx = ?p ! 0" and c0: "counter st0 = 1" and i0: "indices st0 = Some ?p"
    by simp_all
  have c: "counter st1 = 1" and i: "indices st1 = Some ?p"
    using c1 c0 i1 i0 by simp_all
  have le: "counter st1 + m \<le> length X" using c n by simp
  from fill_batch_mid [OF rest i lp le]
  have ih: "map fst rest = take m (drop 1 ?p)"
    "0 < m \<longrightarrow> counter st' = 1 + m"
    by (simp_all add: c)
  have "take m (drop 1 ?p) = drop 1 ?p" using lp n by simp
  moreover have "?p = ?p ! 0 # drop 1 ?p"
    using lp n by (cases ?p) simp_all
  ultimately have 1: "map fst rows = ?p"
    using ih(1) by (simp add: rows row idx)
  have 2: "counter st' = length X"
  proof (cases m)
    case 0
    with rest have "st' = st1" by simp
    with c n 0 show ?thesis by simp
  next
    case (Suc k)
    with ih(2) n show ?thesis by simp
  qed
  show ?thesis using 1 2 by simp
qed

lemma fill_batch_add:
  assumes "fill_batch rnd svd hand X mn mx (a + b) st = Inr (rows, st')"
  shows "\<exists>st1. fill_batch rnd svd hand X mn mx a st = Inr (take a rows, st1) \<and>
               fill_batch rnd svd hand X mn mx b st1 = Inr (drop a rows, st')"
  using assms
proof (induction a arbitrary: st rows)
  case 0
  then show ?case by simp
next
  case (Suc a)
  from Suc.prems obtain row st1 rest where
    step: "sample_step rnd svd hand X mn mx st = Inr (row, st1)"
    and rest: "fill_batch rnd svd hand X mn mx (a + b) st1 = Inr (rest, st')"
    and rows: "rows = row # rest"
    by (auto split: sum.splits)
  from Suc.IH [OF rest] obtain st2 where
    "fill_batch rnd svd hand X mn mx a st1 = Inr (take a rest, st2)"
    "fill_batch rnd svd hand X mn mx b st2 = Inr (drop a rest, st')"
    by blast
  then show ?case by (auto simp: step rows)
qed

lemma example_select:
  "select_sample flipping_rng (length [example_sample, example_sample])
     \<lparr>counter = 2, indices = i, rng = g\<rparr>
     = Inr (if even g then 0 else 1,
            \<lparr>counter = 1, indices = Some (if even g then [0, 1] else [1, 0]), rng = Suc g\<rparr>)"
  "select_sample flipping_rng (length [example_sample, example_sample])
     \<lparr>counter = 1, indices = Some [a, b], rng = g\<rparr>
     = Inr (b, \<lparr>counter = 2, indices = Some [a, b], rng = g\<rparr>)"
  by (simp_all add: select_sample_def flipping_rng_def numeral_2_eq_2)

lemma example_step_reset:
  "sample_step flipping_rng example_svd example_template [example_sample, example_sample] 2 2
     \<lparr>counter = 2, indices = i, rng = g\<rparr>
   = Inr ((if even g then 0 else 1, example_input, example_target),
          \<lparr>counter = 1, indices = Some (if even g then [0, 1] else [1, 0]), rng = Suc g\<rparr>)"
proof (rule example_sample_step)
  show "select_sample flipping_rng (length [example_sample, example_sample])
          \<lparr>counter = 2, indices = i, rng = g\<rparr>
        = Inr (if even g then 0 else 1,
            \<lparr>counter = 1, indices = Some (if even g then [0, 1] else [1, 0]), rng = Suc g\<rparr>)"
    by (rule example_select(1))
qed simp_all

lemma example_step_second:
  assumes "b < 2"
  shows "sample_step flipping_rng example_svd example_template [example_sample, example_sample]
     2 2 \<lparr>counter = 1, indices = Some [a, b], rng = g\<rparr>
   = Inr ((b, example_input, example_target), \<lparr>counter = 2, indices = Some [a, b], rng = g\<rparr>)"
proof (rule example_sample_step)
  show "select_sample flipping_rng (length [example_sample, example_sample])
          \<lparr>counter = 1, indices = Some [a, b], rng = g\<rparr>
        = Inr (b, \<lparr>counter = 2, indices = Some [a, b], rng = g\<rparr>)"
    by (rule example_select(2))
  show "b < length [example_sample, example_sample]" using assms by simp
  show "[example_sample, example_sample] ! b = example_sample"
    using assms by (cases b) simp_all
qed

lemma example_two_samples:
  "fill_batch flipping_rng example_svd example_template [example_sample, example_sample] 2 2
     (Suc (Suc m)) \<lparr>counter = 2, indices = i, rng = g\<rparr>
   = (case fill_batch flipping_rng example_svd example_template
             [example_sample, example_sample] 2 2 m
             \<lparr>counter = 2, indices = Some (if even g then [0, 1] else [1, 0]), rng = Suc g\<rparr> of
        Inl e \<Rightarrow> Inl e
      | Inr (rows, st) \<Rightarrow>
          Inr ((if even g then 0 else 1, example_input, example_target)
                 # (if even g then 1 else 0, example_input, example_target) # rows, st))"
proof (cases "even g")
  case True
  have s: "sample_step flipping_rng example_svd example_template
     [example_sample, example_sample] 2 2 \<lparr>counter = 1, indices = Some [0, 1], rng = Suc g\<rparr>
   = Inr ((1, example_input, example_target),
          \<lparr>counter = 2, indices = Some [0, 1], rng = Suc g\<rparr>)"
    by (rule example_step_second) simp
  have t: "even g = True" using True by simp
  show ?thesis
    by (simp only: fill_batch.simps example_step_reset sum.case prod.case t if_True s)
       (simp split: sum.splits)
next
  case False
  have s: "sample_step flipping_rng example_svd example_template
     [example_sample, example_sample] 2 2 \<lparr>counter = 1, indices = Some [1, 0], rng = Suc g\<rparr>
   = Inr ((0, example_input, example_target),
          \<lparr>counter = 2, indices = Some [1, 0], rng = Suc g\<rparr>)"
    by (rule example_step_second) simp
  have f: "even g = False" using False by simp
  show ?thesis
    by (simp only: fill_batch.simps example_step_reset sum.case prod.case f if_False s)
       (simp split: sum.splits)
qed

lemma available_markers_spec:
  "sorted (available_markers n occ) \<and> distinct (available_markers n occ) \<and>
   set (available_markers n occ) = {0..<n} - set occ"
  by (auto simp: available_markers_def sorted_wrt_filter)

lemma visible_nonempty:
  assumes "distinct occ" and "length occ < n"
  shows "{0..<n} - set occ \<noteq> {}"
proof
  assume "{0..<n} - set occ = {}"
  then have "{0..<n} \<subseteq> set occ" by blast
  then have "card {0..<n} \<le> card (set occ)" by (rule card_mono [OF finite_set])
  with assms show False by (simp add: distinct_card)
qed

lemma flatten_map_slice:
  assumes "i < n"
  shows "take 3 (drop (3 * i) (extract_input_features (map f [0..<n]))) = triple_list (f i)"
  using flatten_slice [of i "map f [0..<n]"] assms by simp

text \<open>
  C6.  With \<open>min_occlusions = max_occlusions = k\<close>, where \<open>k\<close> is not the sentinel -1 and
  leaves at least one of the markers visible (with all markers occluded the program's
  translation is the mean of an empty array, NaN, which the real-valued model does not
  have): every row \<open>j\<close> of a minibatch comes from a sample \<open>X[idx]\<close> and a mask \<open>occ\<close> of
  exactly \<open>k\<close> distinct marker indices.  The rigid motion is computed from the rows of the
  sample at the indices \<open>visible\<close>, which are exactly the marker indices outside the
  mask, in ascending order, against the rows of the template at the same indices.  The
  target row is the whole transformed sample, flattened: its entries \<open>3i, 3i+1, 3i+2\<close>
  are marker \<open>i\<close> times \<open>R\<close> plus the offset.  The input row has zeros at the three
  entries of every marker of the mask and the entries of the target row elsewhere.
\<close>

theorem generate_minibatch_visible_alignment:
  assumes "randint_ok rnd" and "choice_ok rnd" and "k \<noteq> - 1"
    and "k < int (length all_markers)"
    and "generate_minibatch rnd svd hand X k k st = Inr ((X_batch, Y_batch), st')"
    and "j < batch_size"
  shows "length X_batch = batch_size \<and> length Y_batch = batch_size \<and>
         (\<exists>idx occ visible R offset.
           idx < length X \<and> length (X ! idx) = length all_markers \<and>
           distinct occ \<and> int (length occ) = k \<and> set occ \<subseteq> {0..<length all_markers} \<and>
           sorted visible \<and> distinct visible \<and> visible \<noteq> [] \<and>
           set visible = {0..<length all_markers} - set occ \<and>
           rigid_motion svd (map (\<lambda>i. (X ! idx) ! i) visible) (map (\<lambda>i. hand ! i) visible)
             = Inr (R, offset) \<and>
           Y_batch ! j = extract_input_features (transform (X ! idx) R offset) \<and>
           length (X_batch ! j) = 3 * length all_markers \<and>
           length (Y_batch ! j) = 3 * length all_markers \<and>
           (\<forall>i < length all_markers.
              take 3 (drop (3 * i) (Y_batch ! j))
                = triple_list (vec_add (vec_mat ((X ! idx) ! i) R) offset) \<and>
              take 3 (drop (3 * i) (X_batch ! j))
                = (if i \<in> set occ then [0, 0, 0] else take 3 (drop (3 * i) (Y_batch ! j)))))"
proof -
  from assms(5) obtain rows where
    fb: "fill_batch rnd svd hand X k k batch_size st = Inr (rows, st')"
    and xb: "X_batch = map (\<lambda>r. fst (snd r)) rows"
    and yb: "Y_batch = map (\<lambda>r. snd (snd r)) rows"
    by (auto simp: generate_minibatch_def split: sum.splits)
  from fill_batch_rows [OF fb] have len: "length rows = batch_size"
    and "\<exists>s s'. sample_step rnd svd hand X k k s = Inr (rows ! j, s')"
    using assms(6) by simp_all
  then obtain s s' where
    "sample_step rnd svd hand X k k s = Inr ((fst (rows ! j), fst (snd (rows ! j)),
        snd (snd (rows ! j))), s')"
    by auto
  from sample_step_occlusion [OF assms(1,2,3) this]
  obtain idx occ R offset where
    idx: "idx < length X" and n: "length (X ! idx) = length all_markers"
    and d: "distinct occ" and lk: "int (length occ) = k"
    and below: "list_all (\<lambda>i. i < length all_markers) occ"
    and rm: "rigid_motion svd
              (map (\<lambda>i. (X ! idx) ! i) (available_markers (length (X ! idx)) occ))
              (map (\<lambda>i. hand ! i) (available_markers (length (X ! idx)) occ))
             = Inr (R, offset)"
    and y: "snd (snd (rows ! j)) = extract_input_features (transform (X ! idx) R offset)"
    and x: "fst (snd (rows ! j)) = extract_input_features
                 (map (\<lambda>i. if i \<in> set occ then zero3 else transform (X ! idx) R offset ! i)
                    [0..<length (X ! idx)])"
    by blast
  define visible where "visible = available_markers (length (X ! idx)) occ"
  have xj: "X_batch ! j = fst (snd (rows ! j))" and yj: "Y_batch ! j = snd (snd (rows ! j))"
    using len assms(6) by (simp_all add: xb yb)
  have l: "length X_batch = batch_size" "length Y_batch = batch_size"
    using len by (simp_all add: xb yb)
  have sub: "set occ \<subseteq> {0..<length all_markers}"
    using below by (auto simp: list_all_iff)
  have vis: "sorted visible" "distinct visible"
    "set visible = {0..<length all_markers} - set occ"
    using available_markers_spec [of "length (X ! idx)" occ] by (simp_all add: visible_def n)
  have "length occ < length all_markers" using lk assms(4) by simp
  then have "{0..<length all_markers} - set occ \<noteq> {}"
    using d by (rule visible_nonempty [rotated])
  then have ne: "visible \<noteq> []" using vis(3) by auto
  have lx: "length (X_batch ! j) = 3 * length all_markers"
    unfolding xj x by (simp add: length_flatten n)
  have ly: "length (Y_batch ! j) = 3 * length all_markers"
    unfolding yj y by (simp add: length_flatten transform_def n)
  have slices: "take 3 (drop (3 * i) (Y_batch ! j))
                = triple_list (vec_add (vec_mat ((X ! idx) ! i) R) offset) \<and>
              take 3 (drop (3 * i) (X_batch ! j))
                = (if i \<in> set occ then [0, 0, 0] else take 3 (drop (3 * i) (Y_batch ! j)))"
    if i: "i < length all_markers" for i
  proof -
    have il: "i < length (transform (X ! idx) R offset)"
      using i by (simp add: transform_def n)
    have ys: "take 3 (drop (3 * i) (Y_batch ! j)) = triple_list (transform (X ! idx) R offset ! i)"
      unfolding yj y using il by (rule flatten_slice)
    have t: "transform (X ! idx) R offset ! i = vec_add (vec_mat ((X ! idx) ! i) R) offset"
      using i by (simp add: transform_def n)
    have xs: "take 3 (drop (3 * i) (X_batch ! j))
              = triple_list (if i \<in> set occ then zero3 else transform (X ! idx) R offset ! i)"
      unfolding xj x using i by (simp add: flatten_map_slice n)
    show ?thesis
      using ys xs t by (simp add: triple_list_def zero3_def)
  qed
  have "rigid_motion svd (map (\<lambda>i. (X ! idx) ! i) visible) (map (\<lambda>i. hand ! i) visible)
             = Inr (R, offset)"
    using rm by (simp add: visible_def)
  moreover have "Y_batch ! j = extract_input_features (transform (X ! idx) R offset)"
    unfolding yj by (rule y)
  ultimately show ?thesis
    using l idx n d lk sub vis ne lx ly slices by blast
qed

theorem generate_minibatch_visible_alignment_witness:
  "generate_minibatch flipping_rng example_svd example_template [example_sample] 2 2
     (gen_init [example_sample] 0)
   = Inr ((replicate batch_size example_input, replicate batch_size example_target),
          \<lparr>counter = 1, indices = Some [0], rng = batch_size\<rparr>) \<and>
   (2 :: int) < int (length all_markers) \<and>
   (\<exists>occ visible R offset.
      distinct occ \<and> int (length occ) = 2 \<and> set occ \<subseteq> {0..<length all_markers} \<and>
      sorted visible \<and> distinct visible \<and> visible \<noteq> [] \<and>
      set visible = {0..<length all_markers} - set occ \<and>
      rigid_motion example_svd
        (map (\<lambda>i. example_sample ! i) visible) (map (\<lambda>i. example_template ! i) visible)
       = Inr (R, offset) \<and>
      example_target = extract_input_features (transform example_sample R offset) \<and>
      take 3 (drop (3 * 0) example_input)
        = (if 0 \<in> set occ then [0, 0, 0] else take 3 (drop (3 * 0) example_target)) \<and>
      take 3 (drop (3 * 8) example_input)
        = (if 8 \<in> set occ then [0, 0, 0] else take 3 (drop (3 * 8) example_target)))"
proof -
  have c: "counter (gen_init [example_sample] (0::nat)) = 1" by (simp add: gen_init_def)
  have run: "generate_minibatch flipping_rng example_svd example_template [example_sample] 2 2
     (gen_init [example_sample] 0)
   = Inr ((replicate batch_size example_input, replicate batch_size example_target),
          \<lparr>counter = 1, indices = Some [0], rng = batch_size\<rparr>)"
  proof -
    have nz: "batch_size \<noteq> 0" by (simp add: batch_size_def)
    have "fill_batch flipping_rng example_svd example_template [example_sample] 2 2 batch_size
            (gen_init [example_sample] 0)
          = Inr (replicate batch_size (0, example_input, example_target),
                 \<lparr>counter = 1, indices = Some [0], rng = batch_size\<rparr>)"
      using example_fill_batch [OF c, of batch_size] nz by (simp add: gen_init_def)
    then show ?thesis by (simp add: generate_minibatch_def)
  qed
  have j: "0 < batch_size" by (simp add: batch_size_def)
  have k: "(2::int) \<noteq> - 1" by simp
  have k9: "(2 :: int) < int (length all_markers)" by (simp add: all_markers_def)
  from generate_minibatch_visible_alignment [OF flipping_rng_ok(2,3) k k9 run j]
  obtain idx occ visible R offset where
    p: "idx < length [example_sample]"
       "distinct occ" "int (length occ) = 2" "set occ \<subseteq> {0..<length all_markers}"
       "sorted visible" "distinct visible" "visible \<noteq> []"
       "set visible = {0..<length all_markers} - set occ"
       "rigid_motion example_svd (map (\<lambda>i. ([example_sample] ! idx) ! i) visible)
          (map (\<lambda>i. example_template ! i) visible) = Inr (R, offset)"
       "replicate batch_size example_target ! 0
          = extract_input_features (transform ([example_sample] ! idx) R offset)"
    and sl: "\<forall>i < length all_markers.
              take 3 (drop (3 * i) (replicate batch_size example_target ! 0))
                = triple_list (vec_add (vec_mat (([example_sample] ! idx) ! i) R) offset) \<and>
              take 3 (drop (3 * i) (replicate batch_size example_input ! 0))
                = (if i \<in> set occ then [0, 0, 0]
                   else take 3 (drop (3 * i) (replicate batch_size example_target ! 0)))"
    by blast
  from p(1) have idx: "idx = 0" by simp
  have r: "replicate batch_size example_target ! 0 = example_target"
          "replicate batch_size example_input ! 0 = example_input"
    using j by simp_all
  have q: "[example_sample] ! 0 = example_sample" by simp
  have i0: "(0::nat) < length all_markers" and i8: "(8::nat) < length all_markers"
    by (simp_all add: all_markers_def)
  have s0: "take 3 (drop (3 * 0) example_input)
        = (if 0 \<in> set occ then [0, 0, 0] else take 3 (drop (3 * 0) example_target))"
    using sl [rule_format, OF i0] unfolding r by blast
  have s8: "take 3 (drop (3 * 8) example_input)
        = (if 8 \<in> set occ then [0, 0, 0] else take 3 (drop (3 * 8) example_target))"
    using sl [rule_format, OF i8] unfolding r by blast
  from p(2-10) [unfolded idx r q] run k9 s0 s8 show ?thesis by blast
qed

subsection \<open>The occlusion generator: passes over the dataset\<close>

lemma fill_batch_append:
  assumes "fill_batch rnd svd hand X mn mx a st = Inr (rows1, st1)"
    and "fill_batch rnd svd hand X mn mx c st1 = Inr (rows2, st2)"
  shows "fill_batch rnd svd hand X mn mx (a + c) st = Inr (rows1 @ rows2, st2)"
  using assms
proof (induction a arbitrary: st rows1)
  case 0
  then show ?case by simp
next
  case (Suc a)
  from Suc.prems(1) obtain row st0 rest where
    step: "sample_step rnd svd hand X mn mx st = Inr (row, st0)"
    and rest: "fill_batch rnd svd hand X mn mx a st0 = Inr (rest, st1)"
    and rows: "rows1 = row # rest"
    by (auto split: sum.splits)
  from Suc.IH [OF rest Suc.prems(2)] show ?case
    by (simp add: step rows)
qed

lemma generate_batches_fill:
  assumes "generate_batches rnd svd hand X mn mx b st = Inr (batches, st')"
  shows "\<exists>rows. fill_batch rnd svd hand X mn mx (b * batch_size) st = Inr (rows, st') \<and>
               concat (map fst batches) = map (\<lambda>r. fst (snd r)) rows \<and>
               concat (map snd batches) = map (\<lambda>r. snd (snd r)) rows \<and>
               length batches = b \<and>
               list_all (\<lambda>B. length (fst B) = batch_size \<and> length (snd B) = batch_size) batches"
  using assms
proof (induction b arbitrary: st batches)
  case 0
  then show ?case by simp
next
  case (Suc b)
  from Suc.prems obtain B st1 Bs where
    gm: "generate_minibatch rnd svd hand X mn mx st = Inr (B, st1)"
    and gb: "generate_batches rnd svd hand X mn mx b st1 = Inr (Bs, st')"
    and bs: "batches = B # Bs"
    by (auto split: sum.splits)
  from gm obtain rows1 where
    f1: "fill_batch rnd svd hand X mn mx batch_size st = Inr (rows1, st1)"
    and B: "B = (map (\<lambda>r. fst (snd r)) rows1, map (\<lambda>r. snd (snd r)) rows1)"
    by (auto simp: generate_minibatch_def split: sum.splits)
  have l1: "length rows1 = batch_size" using fill_batch_rows [OF f1] by simp
  from Suc.IH [OF gb] obtain rows2 where
    f2: "fill_batch rnd svd hand X mn mx (b * batch_size) st1 = Inr (rows2, st')"
    and c1: "concat (map fst Bs) = map (\<lambda>r. fst (snd r)) rows2"
    and c2: "concat (map snd Bs) = map (\<lambda>r. snd (snd r)) rows2"
    and lb: "length Bs = b"
    and la: "list_all (\<lambda>B. length (fst B) = batch_size \<and> length (snd B) = batch_size) Bs"
    by blast
  have "fill_batch rnd svd hand X mn mx (batch_size + b * batch_size) st
        = Inr (rows1 @ rows2, st')"
    by (rule fill_batch_append [OF f1 f2])
  then have "fill_batch rnd svd hand X mn mx (Suc b * batch_size) st = Inr (rows1 @ rows2, st')"
    by simp
  moreover have "concat (map fst batches) = map (\<lambda>r. fst (snd r)) (rows1 @ rows2)"
    "concat (map snd batches) = map (\<lambda>r. snd (snd r)) (rows1 @ rows2)"
    by (simp_all add: bs B c1 c2)
  moreover have "length batches = Suc b" by (simp add: bs lb)
  moreover have "list_all (\<lambda>B. length (fst B) = batch_size \<and> length (snd B) = batch_size) batches"
    by (simp add: bs B l1 la)
  ultimately show ?case by blast
qed

lemma draw_occlusions_visible:
  assumes "randint_ok rnd" and "categorical_ok rnd" and "choice_ok rnd"
    and "mn = - 1 \<or> mx < int (length all_markers)"
    and "draw_occlusions rnd mn mx g = Inr (occ, g')"
  shows "length occ < length all_markers"
proof -
  from assms(5) obtain num g1 where
    num: "(if mn \<noteq> - 1 then draw_randint rnd mn (mx + 1) g
           else (case rnd_categorical rnd g of (c, g') \<Rightarrow> Inr (int c + 1, g'))) = Inr (num, g1)"
    and c: "draw_choice rnd (length all_markers) num g1 = Inr (occ, g')"
    by (auto simp: draw_occlusions_def split: sum.splits)
  have bound: "num < int (length all_markers)"
  proof (cases "mn = - 1")
    case True
    with num have "num = int (fst (rnd_categorical rnd g)) + 1"
      by (cases "rnd_categorical rnd g") auto
    moreover have "fst (rnd_categorical rnd g) < 4"
      using assms(2) unfolding categorical_ok_def by blast
    ultimately show ?thesis by (simp add: all_markers_def)
  next
    case False
    with num have lt: "mn < mx + 1" and n: "num = fst (rnd_randint rnd mn (mx + 1) g)"
      by (auto simp: draw_randint_def split: if_splits)
    have "fst (rnd_randint rnd mn (mx + 1) g) < mx + 1"
      using assms(1) [unfolded randint_ok_def, rule_format, OF lt, of g] by simp
    with n False assms(4) show ?thesis by simp
  qed
  from c have k: "0 \<le> num" "nat num \<le> length all_markers"
    and occ: "occ = fst (rnd_choice rnd (length all_markers) (nat num) g1)"
    by (auto simp: draw_choice_def split: if_splits)
  from assms(3) k(2) have "length occ = nat num"
    unfolding choice_ok_def occ by blast
  with bound k(1) show ?thesis by simp
qed

lemma sample_step_features:
  assumes "randint_ok rnd" and "categorical_ok rnd" and "choice_ok rnd"
    and "mn = - 1 \<or> mx < int (length all_markers)"
    and "sample_step rnd svd hand X mn mx st = Inr ((idx, x, y), st')"
  shows "idx < length X \<and> length (X ! idx) = length all_markers \<and>
         (\<exists>occ. length occ < length all_markers \<and>
                extract_features svd hand (X ! idx) occ = Inr (x, y))"
proof -
  from assms(5) obtain st1 occ g where
    sel: "select_sample rnd (length X) st = Inr (idx, st1)"
    and dr: "draw_occlusions rnd mn mx (rng st1) = Inr (occ, g)"
    and idx: "idx < length X"
    and ef: "extract_features svd hand (X ! idx) occ = Inr (x, y)"
    and ly: "length y = length all_markers * 3"
    by (auto simp: sample_step_def split: sum.splits if_splits)
  from extract_features_result [OF ef] obtain R offset where
    "y = extract_input_features (transform (X ! idx) R offset)" by blast
  then have "length y = 3 * length (X ! idx)"
    by (simp add: length_flatten transform_def)
  with ly have n: "length (X ! idx) = length all_markers" by simp
  from draw_occlusions_visible [OF assms(1-4) dr] idx ef n show ?thesis by blast
qed

lemma fill_batch_features:
  assumes "randint_ok rnd" and "categorical_ok rnd" and "choice_ok rnd"
    and "mn = - 1 \<or> mx < int (length all_markers)"
    and "fill_batch rnd svd hand X mn mx m st = Inr (rows, st')"
    and "r < m"
  shows "fst (rows ! r) < length X \<and> length (X ! fst (rows ! r)) = length all_markers \<and>
         (\<exists>occ. length occ < length all_markers \<and>
                extract_features svd hand (X ! fst (rows ! r)) occ
                  = Inr (fst (snd (rows ! r)), snd (snd (rows ! r))))"
proof -
  from fill_batch_rows [OF assms(5)] assms(6) obtain s s' where
    "sample_step rnd svd hand X mn mx s = Inr (rows ! r, s')" by blast
  then have "sample_step rnd svd hand X mn mx s
             = Inr ((fst (rows ! r), fst (snd (rows ! r)), snd (snd (rows ! r))), s')"
    by simp
  from sample_step_features [OF assms(1-4) this] show ?thesis .
qed

lemma fill_batch_passes:
  assumes "permutation_ok rnd" and "0 < length X"
  shows "counter st = length X \<Longrightarrow>
         fill_batch rnd svd hand X mn mx m st = Inr (rows, st') \<Longrightarrow>
         (q + 1) * length X \<le> m \<Longrightarrow>
         \<exists>g. take (length X) (drop (q * length X) (map fst rows))
                = fst (rnd_permutation rnd (length X) g) \<and>
             (q = 0 \<longrightarrow> g = rng st)"
proof (induction q arbitrary: st rows m)
  case 0
  then have "m = length X + (m - length X)" by simp
  with 0(2) have "fill_batch rnd svd hand X mn mx (length X + (m - length X)) st = Inr (rows, st')"
    by simp
  from fill_batch_add [OF this] obtain st1 where
    a: "fill_batch rnd svd hand X mn mx (length X) st = Inr (take (length X) rows, st1)"
    by blast
  from fill_batch_pass [OF assms 0(1) a]
  have "map fst (take (length X) rows) = fst (rnd_permutation rnd (length X) (rng st))"
    by simp
  then show ?case by (auto simp: take_map)
next
  case (Suc q)
  from Suc.prems(3) have le: "length X \<le> m" and rest: "(q + 1) * length X \<le> m - length X"
    by simp_all
  from le have "m = length X + (m - length X)" by simp
  with Suc.prems(2)
  have "fill_batch rnd svd hand X mn mx (length X + (m - length X)) st = Inr (rows, st')"
    by simp
  from fill_batch_add [OF this] obtain st1 where
    a: "fill_batch rnd svd hand X mn mx (length X) st = Inr (take (length X) rows, st1)"
    and b: "fill_batch rnd svd hand X mn mx (m - length X) st1 = Inr (drop (length X) rows, st')"
    by blast
  from fill_batch_pass [OF assms Suc.prems(1) a] have c1: "counter st1 = length X" by simp
  from Suc.IH [OF c1 b rest] obtain g where
    "take (length X) (drop (q * length X) (map fst (drop (length X) rows)))
       = fst (rnd_permutation rnd (length X) g)"
    by blast
  moreover have "drop (q * length X) (map fst (drop (length X) rows))
                 = drop (Suc q * length X) (map fst rows)"
    by (simp add: drop_map add.commute)
  ultimately show ?case by auto
qed

text \<open>
  C7.  Take the batches of \<open>b\<close> consecutive calls of the generator, starting where the
  cursor has exhausted the dataset (\<open>counter = n\<close>, which is also the state before the
  first call), with masks that leave a marker visible.  Every batch has \<open>batch_size\<close>
  rows, so nothing is truncated.  There is a sequence \<open>idxs\<close> of sample indices, one per
  row over all the batches in order, such that row \<open>r\<close> is the pair of feature vectors of
  the sample \<open>X[idxs[r]]\<close> under some mask, and such that every pass (the rows \<open>q n, \<dots>, q n + n - 1\<close>, for
  each \<open>q\<close> whose pass is complete, wherever the batch boundaries fall) is a permutation
  drawn from the random generator: each of \<open>0, \<dots>, n - 1\<close> is selected exactly once in
  it.  The first pass is the permutation drawn in the starting state.
\<close>

theorem generator_passes:
  assumes "permutation_ok rnd" and "randint_ok rnd" and "categorical_ok rnd" and "choice_ok rnd"
    and "mn = - 1 \<or> mx < int (length all_markers)"
    and "0 < length X" and "counter st = length X"
    and "generate_batches rnd svd hand X mn mx b st = Inr (batches, st')"
  shows "length batches = b \<and>
         list_all (\<lambda>B. length (fst B) = batch_size \<and> length (snd B) = batch_size) batches \<and>
         (\<exists>idxs. length idxs = b * batch_size \<and>
            (\<forall>r < b * batch_size.
               idxs ! r < length X \<and> length (X ! (idxs ! r)) = length all_markers \<and>
               (\<exists>occ. length occ < length all_markers \<and>
                  extract_features svd hand (X ! (idxs ! r)) occ
                    = Inr (concat (map fst batches) ! r, concat (map snd batches) ! r))) \<and>
            (\<forall>q. (q + 1) * length X \<le> b * batch_size \<longrightarrow>
               mset (take (length X) (drop (q * length X) idxs)) = mset [0..<length X] \<and>
               (\<exists>g. take (length X) (drop (q * length X) idxs)
                       = fst (rnd_permutation rnd (length X) g))) \<and>
            (length X \<le> b * batch_size \<longrightarrow>
               take (length X) idxs = fst (rnd_permutation rnd (length X) (rng st))))"
proof -
  from generate_batches_fill [OF assms(8)] obtain rows where
    fb: "fill_batch rnd svd hand X mn mx (b * batch_size) st = Inr (rows, st')"
    and cx: "concat (map fst batches) = map (\<lambda>r. fst (snd r)) rows"
    and cy: "concat (map snd batches) = map (\<lambda>r. snd (snd r)) rows"
    and lb: "length batches = b"
    and la: "list_all (\<lambda>B. length (fst B) = batch_size \<and> length (snd B) = batch_size) batches"
    by blast
  define idxs where "idxs = map fst rows"
  have lr: "length rows = b * batch_size" using fill_batch_rows [OF fb] by simp
  have li: "length idxs = b * batch_size" by (simp add: idxs_def lr)
  have tie: "idxs ! r < length X \<and> length (X ! (idxs ! r)) = length all_markers \<and>
               (\<exists>occ. length occ < length all_markers \<and>
                  extract_features svd hand (X ! (idxs ! r)) occ
                    = Inr (concat (map fst batches) ! r, concat (map snd batches) ! r))"
    if r: "r < b * batch_size" for r
  proof -
    have e: "idxs ! r = fst (rows ! r)"
      "concat (map fst batches) ! r = fst (snd (rows ! r))"
      "concat (map snd batches) ! r = snd (snd (rows ! r))"
      using r lr by (simp_all add: idxs_def cx cy)
    show ?thesis
      unfolding e by (rule fill_batch_features [OF assms(2,3,4,5) fb r])
  qed
  have pass: "mset (take (length X) (drop (q * length X) idxs)) = mset [0..<length X] \<and>
               (\<exists>g. take (length X) (drop (q * length X) idxs)
                       = fst (rnd_permutation rnd (length X) g))"
    if q: "(q + 1) * length X \<le> b * batch_size" for q
  proof -
    from fill_batch_passes [OF assms(1,6,7) fb q] obtain g where
      g: "take (length X) (drop (q * length X) idxs) = fst (rnd_permutation rnd (length X) g)"
      unfolding idxs_def by blast
    have "mset (fst (rnd_permutation rnd (length X) g)) = mset [0..<length X]"
      using assms(1) unfolding permutation_ok_def by blast
    with g show ?thesis by metis
  qed
  have first: "take (length X) idxs = fst (rnd_permutation rnd (length X) (rng st))"
    if "length X \<le> b * batch_size"
  proof -
    from that have "(0 + 1) * length X \<le> b * batch_size" by simp
    from fill_batch_passes [OF assms(1,6,7) fb this] show ?thesis
      unfolding idxs_def by simp
  qed
  show ?thesis using lb la li tie pass first by blast
qed

lemma flipping_rng_categorical: "categorical_ok flipping_rng"
  by (simp add: categorical_ok_def flipping_rng_def)

lemma example_even_rows:
  "\<exists>rows st'. fill_batch flipping_rng example_svd example_template
      [example_sample, example_sample] 2 2 (2 * m) \<lparr>counter = 2, indices = i, rng = g\<rparr>
    = Inr (rows, st') \<and>
    map (\<lambda>r. fst (snd r)) rows = replicate (2 * m) example_input \<and>
    map (\<lambda>r. snd (snd r)) rows = replicate (2 * m) example_target"
proof (induction m arbitrary: i g)
  case 0
  then show ?case by simp
next
  case (Suc m)
  from Suc [of "Some (if even g then [0, 1] else [1, 0])" "Suc g"]
  obtain rows st' where
    f: "fill_batch flipping_rng example_svd example_template
      [example_sample, example_sample] 2 2 (2 * m)
      \<lparr>counter = 2, indices = Some (if even g then [0, 1] else [1, 0]), rng = Suc g\<rparr>
    = Inr (rows, st')"
    and x: "map (\<lambda>r. fst (snd r)) rows = replicate (2 * m) example_input"
    and y: "map (\<lambda>r. snd (snd r)) rows = replicate (2 * m) example_target"
    by blast
  have "fill_batch flipping_rng example_svd example_template
      [example_sample, example_sample] 2 2 (Suc (Suc (2 * m))) \<lparr>counter = 2, indices = i, rng = g\<rparr>
    = Inr ((if even g then 0 else 1, example_input, example_target)
                 # (if even g then 1 else 0, example_input, example_target) # rows, st')"
    by (simp only: example_two_samples f sum.case prod.case)
  then show ?case using x y by simp
qed

theorem generator_passes_witness:
  "\<exists>st' idxs.
     generate_batches flipping_rng example_svd example_template
        [example_sample, example_sample] 2 2 1 (gen_init [example_sample, example_sample] 0)
     = Inr ([(replicate batch_size example_input, replicate batch_size example_target)], st') \<and>
     length idxs = 1 * batch_size \<and>
     take (length [example_sample, example_sample]) idxs = [0, 1] \<and>
     mset (take (length [example_sample, example_sample])
             (drop (1 * length [example_sample, example_sample]) idxs)) = mset [0, 1] \<and>
     mset (take (length [example_sample, example_sample])
             (drop (15 * length [example_sample, example_sample]) idxs)) = mset [0, 1] \<and>
     idxs ! 31 < length [example_sample, example_sample]"
proof -
  let ?X = "[example_sample, example_sample]"
  let ?st = "gen_init ?X (0::nat)"
  have g: "?st = \<lparr>counter = 2, indices = None, rng = 0\<rparr>"
    by (simp add: gen_init_def)
  have b32: "batch_size = 2 * 16" by (simp add: batch_size_def)
  from example_even_rows [of 16 None 0] obtain rows st' where
    f: "fill_batch flipping_rng example_svd example_template ?X 2 2 (2 * 16)
          \<lparr>counter = 2, indices = None, rng = 0\<rparr> = Inr (rows, st')"
    and x: "map (\<lambda>r. fst (snd r)) rows = replicate (2 * 16) example_input"
    and y: "map (\<lambda>r. snd (snd r)) rows = replicate (2 * 16) example_target"
    by blast
  have gm: "generate_minibatch flipping_rng example_svd example_template ?X 2 2 ?st
        = Inr ((replicate batch_size example_input, replicate batch_size example_target), st')"
    by (simp only: generate_minibatch_def b32 g f sum.case prod.case x y)
  have run: "generate_batches flipping_rng example_svd example_template ?X 2 2 1 ?st
        = Inr ([(replicate batch_size example_input, replicate batch_size example_target)], st')"
    by (simp only: One_nat_def generate_batches.simps gm sum.case prod.case)
  have n: "0 < length ?X" by simp
  have c: "counter ?st = length ?X" by (simp add: gen_init_def)
  have m: "(2 :: int) = - 1 \<or> 2 < int (length all_markers)" by (simp add: all_markers_def)
  from generator_passes [OF flipping_rng_ok(1,2) flipping_rng_categorical flipping_rng_ok(3)
     m n c run]
  obtain idxs where
    li: "length idxs = 1 * batch_size"
    and tie: "\<forall>r < 1 * batch_size. idxs ! r < length ?X \<and>
               length (?X ! (idxs ! r)) = length all_markers \<and>
               (\<exists>occ. length occ < length all_markers \<and>
                  extract_features example_svd example_template (?X ! (idxs ! r)) occ
                    = Inr (concat (map fst [(replicate batch_size example_input,
                                             replicate batch_size example_target)]) ! r,
                           concat (map snd [(replicate batch_size example_input,
                                             replicate batch_size example_target)]) ! r))"
    and pass: "\<forall>q. (q + 1) * length ?X \<le> 1 * batch_size \<longrightarrow>
               mset (take (length ?X) (drop (q * length ?X) idxs)) = mset [0..<length ?X] \<and>
               (\<exists>g. take (length ?X) (drop (q * length ?X) idxs)
                       = fst (rnd_permutation flipping_rng (length ?X) g))"
    and first: "length ?X \<le> 1 * batch_size \<longrightarrow>
               take (length ?X) idxs = fst (rnd_permutation flipping_rng (length ?X) (rng ?st))"
    by blast
  have u: "[0..<length ?X] = [0, 1]" by (simp add: upt_rec)
  have le: "length ?X \<le> 1 * batch_size" by (simp add: batch_size_def)
  have p0: "fst (rnd_permutation flipping_rng (length ?X) (rng ?st)) = [0, 1]"
    unfolding g by (simp add: flipping_rng_def u [simplified])
  have f1: "take (length ?X) idxs = [0, 1]"
    using first le p0 by simp
  have q1: "(1 + 1) * length ?X \<le> 1 * batch_size" and q15: "(15 + 1) * length ?X \<le> 1 * batch_size"
    by (simp_all add: batch_size_def)
  have m1: "mset (take (length ?X) (drop (1 * length ?X) idxs)) = mset [0, 1]"
    using pass [rule_format, OF q1] unfolding u by blast
  have m15: "mset (take (length ?X) (drop (15 * length ?X) idxs)) = mset [0, 1]"
    using pass [rule_format, OF q15] unfolding u by blast
  have r31: "(31::nat) < 1 * batch_size" by (simp add: batch_size_def)
  have t31: "idxs ! 31 < length ?X"
    using tie [rule_format, OF r31] by blast
  show ?thesis using run li f1 m1 m15 t31 by blast
qed

end
